theory Spec2Isabelle
  imports Main "HOL-Library.AList"
begin

section \<open>Values, outcomes and cache entries\<close>

text \<open>
  The wrapper of \<^verbatim>\<open>src/src/memoize.ts\<close> handles arbitrary JavaScript values. The
  model keeps the distinctions the wrapper depends on: whether a value is a promise
  (\<^verbatim>\<open>result instanceof Promise\<close>), the identity of objects and promises (a number
  names the object), and the primitive values, among them the falsy ones. Numbers are
  integers here; \<^verbatim>\<open>NaN\<close> and fractions are not represented.

  A promise is either one the outside world made (\<open>Ext\<close>), or the \<open>n\<close>-th promise the
  wrapper made with \<^verbatim>\<open>result.then(...).catch(...)\<close> (\<open>Derived n\<close>); the two families
  are disjoint, as a promise returned by \<^verbatim>\<open>catch\<close> is always a new object.
\<close>

datatype pid = Ext nat | Derived nat

datatype jsval =
    JUndefined
  | JNull
  | JBool bool
  | JNum int
  | JStr string
  | JObj nat
  | JPromise pid

fun falsy :: "jsval \<Rightarrow> bool" where
  "falsy JUndefined = True"
| "falsy JNull = True"
| "falsy (JBool b) = (\<not> b)"
| "falsy (JNum n) = (n = 0)"
| "falsy (JStr s) = (s = [])"
| "falsy (JObj a) = False"
| "falsy (JPromise p) = False"

text \<open>\<^verbatim>\<open>v instanceof Promise\<close>, with the promise when it holds.\<close>

fun instanceof_Promise :: "jsval \<Rightarrow> pid option" where
  "instanceof_Promise (JPromise p) = Some p"
| "instanceof_Promise v = None"

text \<open>How a call ends: it returns a value or throws one (any value can be thrown).\<close>

datatype outcome = Return jsval | Throw jsval

text \<open>
  \<^verbatim>\<open>interface CacheEntry\<close>. The field \<^verbatim>\<open>value\<close> is \<open>entry_value\<close>; the optional
  \<^verbatim>\<open>isError\<close> is \<open>False\<close> where the source leaves it out (\<^verbatim>\<open>undefined\<close> is falsy in
  the test of line 57).
\<close>

record entry =
  entry_value :: jsval
  expiresAt :: int
  isError :: bool

text \<open>
  The options of \<^verbatim>\<open>memoize\<close>, after the defaults of lines 37-42 are filled in. The key
  generator may throw, which is \<open>Inl\<close> of the thrown value.
\<close>

record config =
  ttl :: int
  keyGenerator :: "jsval list \<Rightarrow> jsval + string"
  cacheErrors :: bool
  errorTTL :: int

text \<open>
  The state of a promise the wrapper made: still waiting for its source promise (the
  continuations of lines 84-102 are registered and hold \<^verbatim>\<open>key\<close> in their closure),
  fulfilled, or rejected.
\<close>

datatype pstate = Waiting pid string | Fulfilled jsval | Rejected jsval

text \<open>
  The state one wrapped function owns. \<open>cache\<close> is the \<^verbatim>\<open>Map\<close> of line 43, in
  insertion order: \<^verbatim>\<open>cache.set\<close> is \<^const>\<open>AList.update\<close> (an existing key keeps its
  place, a new key goes last), \<^verbatim>\<open>cache.delete\<close> is \<^const>\<open>AList.delete\<close>, \<^verbatim>\<open>cache.get\<close> is
  \<^const>\<open>map_of\<close>. \<open>world\<close> is whatever the underlying function reads and writes.
  \<open>invoked\<close> logs the argument list of every invocation of the underlying function;
  it is not in the source and only serves to count invocations. \<open>handles\<close> holds the
  promises the wrapper made: \<open>Derived n\<close> is position \<open>n\<close>.
\<close>

record 'w state =
  cache :: "(string \<times> entry) list"
  world :: 'w
  invoked :: "jsval list list"
  handles :: "pstate list"

definition init :: "'w \<Rightarrow> 'w state" where
  "init w = \<lparr>cache = [], world = w, invoked = [], handles = []\<rparr>"

section \<open>The wrapped function\<close>

text \<open>
  \<^verbatim>\<open>purgeIfExpired\<close> (lines 45-51), on the cache it mutates; \<open>now\<close> is the reading of
  \<^verbatim>\<open>Date.now()\<close> at line 46.
\<close>

definition purgeIfExpired ::
  "int \<Rightarrow> string \<Rightarrow> entry \<Rightarrow> (string \<times> entry) list \<Rightarrow> bool \<times> (string \<times> entry) list" where
  "purgeIfExpired now key e c =
     (if now > expiresAt e then (True, AList.delete key c) else (False, c))"

text \<open>
  Lines 55-59: the entry the call is served from, if any, and the cache after the
  lookup. \<^verbatim>\<open>cached\<close> is an entry object or \<^verbatim>\<open>undefined\<close>, so \<^verbatim>\<open>cached &&\<close> tests its
  presence.
\<close>

definition lookup ::
  "int \<Rightarrow> string \<Rightarrow> (string \<times> entry) list \<Rightarrow> entry option \<times> (string \<times> entry) list" where
  "lookup now key c =
     (case map_of c key of
        None \<Rightarrow> (None, c)
      | Some cached \<Rightarrow>
          (case purgeIfExpired now key cached c of
             (True, c') \<Rightarrow> (None, c')
           | (False, c') \<Rightarrow> (Some cached, c')))"

text \<open>
  Lines 60-107, the path of a cache miss. The underlying function \<open>fn\<close> runs in the
  world and may change it. \<open>now_set\<close> is the reading of \<^verbatim>\<open>Date.now()\<close> at the
  \<^verbatim>\<open>cache.set\<close> the path takes (line 69, 78 or 105), after \<open>fn\<close> has run. On the
  asynchronous path the caller gets the new promise of lines 83-102, and the entry
  holds that same promise. The underlying function acts on the world only: one that
  calls the wrapped function from inside itself is outside this model.
\<close>

definition compute ::
  "config \<Rightarrow> ('w \<Rightarrow> jsval list \<Rightarrow> outcome \<times> 'w) \<Rightarrow> string \<Rightarrow> jsval list \<Rightarrow> int \<Rightarrow>
     'w state \<Rightarrow> outcome \<times> 'w state" where
  "compute cfg fn key args now_set st =
     (case fn (world st) args of
        (Throw err, w') \<Rightarrow>
          (Throw err,
           st\<lparr>world := w', invoked := invoked st @ [args],
              cache := (if cacheErrors cfg
                        then AList.update key
                               \<lparr>entry_value = err, expiresAt = now_set + errorTTL cfg,
                                isError = True\<rparr> (cache st)
                        else cache st)\<rparr>)
      | (Return result, w') \<Rightarrow>
          (case instanceof_Promise result of
             None \<Rightarrow>
               (Return result,
                st\<lparr>world := w', invoked := invoked st @ [args],
                   cache := AList.update key
                              \<lparr>entry_value = result, expiresAt = now_set + ttl cfg,
                               isError = False\<rparr> (cache st)\<rparr>)
           | Some src \<Rightarrow>
               (let promise = JPromise (Derived (length (handles st))) in
                (Return promise,
                 st\<lparr>world := w', invoked := invoked st @ [args],
                    handles := handles st @ [Waiting src key],
                    cache := AList.update key
                               \<lparr>entry_value = promise, expiresAt = now_set + ttl cfg,
                                isError = False\<rparr> (cache st)\<rparr>))))"

text \<open>
  \<^verbatim>\<open>memoized\<close> (lines 53-108). \<open>now\<close> is the clock at the lookup, \<open>now_set\<close> the clock
  at the store.
\<close>

definition memoized ::
  "config \<Rightarrow> ('w \<Rightarrow> jsval list \<Rightarrow> outcome \<times> 'w) \<Rightarrow> jsval list \<Rightarrow> int \<Rightarrow> int \<Rightarrow>
     'w state \<Rightarrow> outcome \<times> 'w state" where
  "memoized cfg fn args now now_set st =
     (case keyGenerator cfg args of
        Inl err \<Rightarrow> (Throw err, st)
      | Inr key \<Rightarrow>
          (case lookup now key (cache st) of
             (Some cached, c') \<Rightarrow>
               (if isError cached then (Throw (entry_value cached), st\<lparr>cache := c'\<rparr>)
                else (Return (entry_value cached), st\<lparr>cache := c'\<rparr>))
           | (None, c') \<Rightarrow> compute cfg fn key args now_set (st\<lparr>cache := c'\<rparr>)))"

section \<open>Settlement of a pending computation\<close>

text \<open>
  The continuation of lines 84-90, run when the source promise is fulfilled with
  \<open>val\<close>; \<open>now\<close> is the clock at line 87.
\<close>

definition on_fulfilled :: "config \<Rightarrow> string \<Rightarrow> jsval \<Rightarrow> int \<Rightarrow> 'w state \<Rightarrow> 'w state" where
  "on_fulfilled cfg key val now st =
     st\<lparr>cache := AList.update key
                    \<lparr>entry_value = val, expiresAt = now + ttl cfg, isError = False\<rparr>
                    (cache st)\<rparr>"

text \<open>
  The continuation of lines 91-102, run when the source promise is rejected with
  \<open>err\<close>; \<open>now\<close> is the clock at line 95.
\<close>

definition on_rejected :: "config \<Rightarrow> string \<Rightarrow> jsval \<Rightarrow> int \<Rightarrow> 'w state \<Rightarrow> 'w state" where
  "on_rejected cfg key err now st =
     (if cacheErrors cfg then
        st\<lparr>cache := AList.update key
                       \<lparr>entry_value = err, expiresAt = now + errorTTL cfg, isError = True\<rparr>
                       (cache st)\<rparr>
      else st\<lparr>cache := AList.delete key (cache st)\<rparr>)"

text \<open>
  The source promise of the wrapper's promise \<open>n\<close> settles: \<open>Return val\<close> stands for
  fulfilment with \<open>val\<close>, \<open>Throw err\<close> for rejection with \<open>err\<close>. The continuation runs
  and the wrapper's promise settles with what the continuation returns (line 89) or
  throws (line 101). A promise settles once: on a promise that is not waiting nothing
  happens. When and how a source promise settles is decided outside the wrapper, so it
  is an input here, like the clock.
\<close>

definition settle :: "config \<Rightarrow> nat \<Rightarrow> outcome \<Rightarrow> int \<Rightarrow> 'w state \<Rightarrow> 'w state" where
  "settle cfg n out now st =
     (if n < length (handles st) then
        (case handles st ! n of
           Waiting src key \<Rightarrow>
             (case out of
                Return val \<Rightarrow>
                  (on_fulfilled cfg key val now st)\<lparr>handles := (handles st)[n := Fulfilled val]\<rparr>
              | Throw err \<Rightarrow>
                  (on_rejected cfg key err now st)\<lparr>handles := (handles st)[n := Rejected err]\<rparr>)
         | _ \<Rightarrow> st)
      else st)"

section \<open>Manual cache control\<close>

text \<open>
  \<^verbatim>\<open>clear\<close> (lines 111-119). The argument is \<open>None\<close> for \<^verbatim>\<open>undefined\<close> or \<^verbatim>\<open>null\<close>
  (\<^verbatim>\<open>!key\<close> holds), and \<open>Some a\<close> for an argument list, which is truthy even when empty.
\<close>

definition clear :: "config \<Rightarrow> jsval list option \<Rightarrow> 'w state \<Rightarrow> outcome \<times> 'w state" where
  "clear cfg key st =
     (case key of
        None \<Rightarrow> (Return JUndefined, st\<lparr>cache := []\<rparr>)
      | Some a \<Rightarrow>
          (case keyGenerator cfg a of
             Inl err \<Rightarrow> (Throw err, st)
           | Inr cacheKey \<Rightarrow> (Return JUndefined, st\<lparr>cache := AList.delete cacheKey (cache st)\<rparr>)))"

text \<open>\<^verbatim>\<open>stats\<close> (lines 120-123): the size and the keys in insertion order.\<close>

definition stats :: "'w state \<Rightarrow> nat \<times> string list" where
  "stats st = (length (cache st), map fst (cache st))"

section \<open>Sequences of events, and example inputs\<close>

text \<open>
  An entry is visible to a lookup at clock reading \<open>now\<close> when it is in the store and
  \<^verbatim>\<open>Date.now() > entry.expiresAt\<close> is false.
\<close>

definition live :: "int \<Rightarrow> string \<Rightarrow> (string \<times> entry) list \<Rightarrow> bool" where
  "live now key c = (case map_of c key of None \<Rightarrow> False | Some e \<Rightarrow> \<not> now > expiresAt e)"

text \<open>
  What can happen to a wrapped function: it is called (with its argument list and its
  two clock readings), the source promise of one of its pending computations settles
  (at a clock reading), or \<^verbatim>\<open>clear\<close> is called. A call and a \<^verbatim>\<open>clear\<close> have an
  outcome, a settlement has none.
\<close>

datatype event =
    Call "jsval list" int int
  | Settle nat outcome int
  | Clear "jsval list option"

fun step ::
  "config \<Rightarrow> ('w \<Rightarrow> jsval list \<Rightarrow> outcome \<times> 'w) \<Rightarrow> event \<Rightarrow> 'w state \<Rightarrow>
     outcome option \<times> 'w state" where
  "step cfg fn (Call args now now_set) st =
     (case memoized cfg fn args now now_set st of (r, st') \<Rightarrow> (Some r, st'))"
| "step cfg fn (Settle n out now) st = (None, settle cfg n out now st)"
| "step cfg fn (Clear key) st =
     (case clear cfg key st of (r, st') \<Rightarrow> (Some r, st'))"

text \<open>Events one after another: the outcomes in order and the final state.\<close>

fun run ::
  "config \<Rightarrow> ('w \<Rightarrow> jsval list \<Rightarrow> outcome \<times> 'w) \<Rightarrow> event list \<Rightarrow> 'w state \<Rightarrow>
     outcome option list \<times> 'w state" where
  "run cfg fn [] st = ([], st)"
| "run cfg fn (ev # evs) st =
     (case step cfg fn ev st of
        (r, st') \<Rightarrow> (case run cfg fn evs st' of (rs, st'') \<Rightarrow> (r # rs, st'')))"

text \<open>A promise of the wrapper that still waits, with \<open>key\<close> in its continuations.\<close>

fun waits_on :: "string \<Rightarrow> pstate \<Rightarrow> bool" where
  "waits_on key (Waiting src k) = (k = key)"
| "waits_on key (Fulfilled v) = False"
| "waits_on key (Rejected v) = False"

text \<open>
  An event spares the entry of fingerprint \<open>key\<close>, whose expiry is \<open>E\<close>, when it is
  \<^item> a call whose fingerprint is not \<open>key\<close>, or whose key generator throws, or whose
    lookup is no later than \<open>E\<close>;
  \<^item> a settlement of anything but a computation that, in the promises \<open>hs\<close> present
    when the entry was stored, waits with \<open>key\<close> in its continuations;
  \<^item> a \<^verbatim>\<open>clear\<close> with an argument list whose fingerprint is not \<open>key\<close> (or whose key
    generator throws). A \<^verbatim>\<open>clear()\<close> spares no entry.
\<close>

fun spares :: "config \<Rightarrow> string \<Rightarrow> int \<Rightarrow> pstate list \<Rightarrow> event \<Rightarrow> bool" where
  "spares cfg key E hs (Call args now now_set) =
     (keyGenerator cfg args \<noteq> Inr key \<or> now \<le> E)"
| "spares cfg key E hs (Settle n out now) = (\<not> (n < length hs \<and> waits_on key (hs ! n)))"
| "spares cfg key E hs (Clear None) = False"
| "spares cfg key E hs (Clear (Some a)) = (keyGenerator cfg a \<noteq> Inr key)"

text \<open>A call with fingerprint \<open>key\<close>.\<close>

fun calls_key :: "config \<Rightarrow> string \<Rightarrow> event \<Rightarrow> bool" where
  "calls_key cfg key (Call args now now_set) = (keyGenerator cfg args = Inr key)"
| "calls_key cfg key (Settle n out now) = False"
| "calls_key cfg key (Clear a) = False"

text \<open>
  The entry \<open>e\<close> of fingerprint \<open>key\<close> is still in the store of \<open>s\<close>, and the
  computations that wait with \<open>key\<close> in their continuations are the ones that did so
  in the promises \<open>hs\<close>.
\<close>

definition preserved :: "string \<Rightarrow> entry \<Rightarrow> pstate list \<Rightarrow> 'w state \<Rightarrow> bool" where
  "preserved key e hs s =
     (map_of (cache s) key = Some e \<and>
      length hs \<le> length (handles s) \<and>
      (\<forall>m<length (handles s). waits_on key (handles s ! m) \<longrightarrow>
         m < length hs \<and> waits_on key (hs ! m)) \<and>
      (\<forall>m<length hs. waits_on key (hs ! m) \<longrightarrow> handles s ! m = hs ! m))"

text \<open>
  Example inputs. A custom key generator that takes one string argument as the key and
  throws on anything else; an asynchronous function that returns a new promise at each
  invocation; a function that throws a new error object at each invocation; a function
  that returns its world's counter. The world counts the invocations.
\<close>

definition string_key :: "jsval list \<Rightarrow> jsval + string" where
  "string_key a = (case a of [JStr s] \<Rightarrow> Inr s | _ \<Rightarrow> Inl (JStr ''key must be a string''))"

definition fetch_async :: "nat \<Rightarrow> jsval list \<Rightarrow> outcome \<times> nat" where
  "fetch_async w a = (Return (JPromise (Ext w)), Suc w)"

definition failing :: "nat \<Rightarrow> jsval list \<Rightarrow> outcome \<times> nat" where
  "failing w a = (Throw (JObj w), Suc w)"

definition counter :: "nat \<Rightarrow> jsval list \<Rightarrow> outcome \<times> nat" where
  "counter w a = (Return (JNum (int w)), Suc w)"

definition example_config :: "bool \<Rightarrow> config" where
  "example_config ce = \<lparr>ttl = 100, keyGenerator = string_key, cacheErrors = ce, errorTTL = 50\<rparr>"

section \<open>Key generation failure\<close>

text \<open>
  C9. If the key generator throws when the wrapped function is called, the call throws
  the same value and the state is left as it was: no entry is created, overwritten or
  deleted, and the underlying function is not invoked.
\<close>

theorem keygen_failure_propagates:
  assumes "keyGenerator cfg args = Inl err"
  shows "memoized cfg fn args now now_set st = (Throw err, st)"
  using assms by (simp add: memoized_def)

theorem keygen_failure_propagates_witness:
  "keyGenerator (example_config False) [JNum 1] = Inl (JStr ''key must be a string'') \<and>
   memoized (example_config False) counter [JNum 1] 0 0 (init 0) =
     (Throw (JStr ''key must be a string''), init 0)"
proof -
  have k: "keyGenerator (example_config False) [JNum 1] = Inl (JStr ''key must be a string'')"
    by (simp add: example_config_def string_key_def)
  from k keygen_failure_propagates [OF k, of counter 0 0 "init 0"] show ?thesis by simp
qed

section \<open>Facts about the lookup and the miss path\<close>

lemma lookup_absent: "map_of c key = None \<Longrightarrow> lookup now key c = (None, c)"
  by (simp add: lookup_def)

lemma lookup_live:
  "map_of c key = Some e \<Longrightarrow> now \<le> expiresAt e \<Longrightarrow> lookup now key c = (Some e, c)"
  by (simp add: lookup_def purgeIfExpired_def)

lemma lookup_expired:
  "map_of c key = Some e \<Longrightarrow> expiresAt e < now \<Longrightarrow> lookup now key c = (None, AList.delete key c)"
  by (simp add: lookup_def purgeIfExpired_def)

lemma lookup_not_live:
  "\<not> live now key c \<Longrightarrow> lookup now key c = (None, AList.delete key c)"
proof (cases "map_of c key")
  case None
  then have "key \<notin> fst ` set c" by (simp add: map_of_eq_None_iff)
  then have "AList.delete key c = c" by (rule delete_id)
  with None show ?thesis by (simp add: lookup_def)
next
  case (Some e)
  assume "\<not> live now key c"
  with Some have "expiresAt e < now" by (simp add: live_def)
  with Some show ?thesis by (simp add: lookup_def purgeIfExpired_def)
qed

lemma memoized_hit:
  assumes "keyGenerator cfg args = Inr key" "map_of (cache st) key = Some e" "now \<le> expiresAt e"
  shows "memoized cfg fn args now now_set st =
           (if isError e then Throw (entry_value e) else Return (entry_value e), st)"
  using assms by (simp add: memoized_def lookup_live)

lemma memoized_miss:
  assumes "keyGenerator cfg args = Inr key" "\<not> live now key (cache st)"
  shows "memoized cfg fn args now now_set st =
           compute cfg fn key args now_set (st\<lparr>cache := AList.delete key (cache st)\<rparr>)"
  using assms by (simp add: memoized_def lookup_not_live)

lemma compute_invoked: "invoked (snd (compute cfg fn key args now_set st)) = invoked st @ [args]"
  by (simp add: compute_def Let_def split: prod.splits outcome.splits option.splits)

lemma compute_sync:
  assumes "fn (world st) args = (Return v, w')" "instanceof_Promise v = None"
  shows "compute cfg fn key args now_set st =
     (Return v, st\<lparr>world := w', invoked := invoked st @ [args],
        cache := AList.update key \<lparr>entry_value = v, expiresAt = now_set + ttl cfg, isError = False\<rparr> (cache st)\<rparr>)"
  using assms by (simp add: compute_def)

lemma compute_async:
  assumes "fn (world st) args = (Return (JPromise src), w')"
  shows "compute cfg fn key args now_set st =
     (Return (JPromise (Derived (length (handles st)))),
      st\<lparr>world := w', invoked := invoked st @ [args],
         handles := handles st @ [Waiting src key],
        cache := AList.update key \<lparr>entry_value = JPromise (Derived (length (handles st))),
            expiresAt = now_set + ttl cfg, isError = False\<rparr> (cache st)\<rparr>)"
  using assms by (simp add: compute_def Let_def)

lemma compute_throw:
  assumes "fn (world st) args = (Throw err, w')"
  shows "compute cfg fn key args now_set st =
     (Throw err, st\<lparr>world := w', invoked := invoked st @ [args],
        cache := (if cacheErrors cfg then AList.update key \<lparr>entry_value = err, expiresAt = now_set + errorTTL cfg, isError = True\<rparr> (cache st) else cache st)\<rparr>)"
  using assms by (simp add: compute_def)

lemma falsy_not_promise: "falsy v \<Longrightarrow> instanceof_Promise v = None"
  by (cases v) simp_all


lemma memoized_other_key:
  assumes "keyGenerator cfg args = Inr key'" "key' \<noteq> key"
  shows "map_of (cache (snd (memoized cfg fn args now now_set st))) key = map_of (cache st) key"
  using assms
  by (simp add: memoized_def lookup_def purgeIfExpired_def compute_def Let_def update_conv'
      delete_conv' split: option.splits prod.splits outcome.splits)

lemma memoized_invoked:
  "invoked (snd (memoized cfg fn args now now_set st)) = invoked st \<or>
   invoked (snd (memoized cfg fn args now now_set st)) = invoked st @ [args]"
  by (simp add: memoized_def lookup_def purgeIfExpired_def compute_def Let_def
      split: option.splits prod.splits outcome.splits sum.splits)

lemma memoized_handles:
  "\<exists>hs. handles (snd (memoized cfg fn args now now_set st)) = handles st @ hs"
  by (simp add: memoized_def lookup_def purgeIfExpired_def compute_def Let_def
      split: option.splits prod.splits outcome.splits sum.splits)

section \<open>Lazy expiry\<close>

text \<open>
  C3. An entry is served only while \<open>now \<le> expiresAt\<close>. A call whose lookup reads a
  clock strictly after the entry's \<open>expiresAt\<close> deletes the entry at that lookup and
  goes on as a miss on the purged store, which invokes the underlying function; a call
  at exactly \<open>expiresAt\<close> is served from the entry and changes nothing. Nothing but a
  lookup of that fingerprint purges: a call with another fingerprint, at any time,
  leaves the entry in the store.
\<close>

theorem lazy_expiry:
  assumes "keyGenerator cfg args = Inr key" and "map_of (cache st) key = Some e"
  shows "(expiresAt e < now \<longrightarrow>
            lookup now key (cache st) = (None, AList.delete key (cache st)) \<and>
            map_of (AList.delete key (cache st)) key = None \<and>
            memoized cfg fn args now now_set st =
              compute cfg fn key args now_set (st\<lparr>cache := AList.delete key (cache st)\<rparr>) \<and>
            invoked (snd (memoized cfg fn args now now_set st)) = invoked st @ [args]) \<and>
         (now \<le> expiresAt e \<longrightarrow>
            memoized cfg fn args now now_set st =
              (if isError e then Throw (entry_value e) else Return (entry_value e), st)) \<and>
         (\<forall>args' key'. keyGenerator cfg args' = Inr key' \<and> key' \<noteq> key \<longrightarrow>
            map_of (cache (snd (memoized cfg fn args' now now_set st))) key = Some e)"
proof (intro conjI impI allI)
  assume late: "expiresAt e < now"
  from assms(2) late show "lookup now key (cache st) = (None, AList.delete key (cache st))"
    by (rule lookup_expired)
  show "map_of (AList.delete key (cache st)) key = None"
    by (simp add: delete_conv')
  from assms late have nl: "\<not> live now key (cache st)"
    by (simp add: live_def)
  from assms(1) nl
  show m: "memoized cfg fn args now now_set st =
      compute cfg fn key args now_set (st\<lparr>cache := AList.delete key (cache st)\<rparr>)"
    by (rule memoized_miss)
  show "invoked (snd (memoized cfg fn args now now_set st)) = invoked st @ [args]"
    by (simp add: m compute_invoked)
next
  assume "now \<le> expiresAt e"
  with assms show "memoized cfg fn args now now_set st =
      (if isError e then Throw (entry_value e) else Return (entry_value e), st)"
    by (rule memoized_hit)
next
  fix args' key'
  assume "keyGenerator cfg args' = Inr key' \<and> key' \<noteq> key"
  then show "map_of (cache (snd (memoized cfg fn args' now now_set st))) key = Some e"
    using assms(2) by (simp add: memoized_other_key)
qed

theorem lazy_expiry_witness:
  "keyGenerator (example_config False) [JStr ''a''] = Inr ''a'' \<and>
   map_of (cache \<lparr>cache = [(''a'', \<lparr>entry_value = JNum 0, expiresAt = 100, isError = False\<rparr>)],
                  world = Suc 0, invoked = [[JStr ''a'']], handles = []\<rparr>) ''a''
     = Some \<lparr>entry_value = JNum 0, expiresAt = 100, isError = False\<rparr> \<and>
   memoized (example_config False) counter [JStr ''a''] 100 100
      \<lparr>cache = [(''a'', \<lparr>entry_value = JNum 0, expiresAt = 100, isError = False\<rparr>)],
       world = Suc 0, invoked = [[JStr ''a'']], handles = []\<rparr>
     = (Return (JNum 0),
        \<lparr>cache = [(''a'', \<lparr>entry_value = JNum 0, expiresAt = 100, isError = False\<rparr>)],
         world = Suc 0, invoked = [[JStr ''a'']], handles = []\<rparr>) \<and>
   memoized (example_config False) counter [JStr ''a''] 101 102
      \<lparr>cache = [(''a'', \<lparr>entry_value = JNum 0, expiresAt = 100, isError = False\<rparr>)],
       world = Suc 0, invoked = [[JStr ''a'']], handles = []\<rparr>
     = (Return (JNum 1),
        \<lparr>cache = [(''a'', \<lparr>entry_value = JNum 1, expiresAt = 202, isError = False\<rparr>)],
         world = Suc (Suc 0), invoked = [[JStr ''a''], [JStr ''a'']], handles = []\<rparr>)"
proof -
  let ?e = "\<lparr>entry_value = JNum 0, expiresAt = 100, isError = False\<rparr>"
  let ?st = "\<lparr>cache = [(''a'', ?e)], world = Suc 0, invoked = [[JStr ''a'']], handles = []\<rparr>"
  have k: "keyGenerator (example_config False) [JStr ''a''] = Inr ''a''"
    by (simp add: example_config_def string_key_def)
  have e: "map_of (cache ?st) ''a'' = Some ?e" by simp
  note th = lazy_expiry [OF k e, where fn = counter]
  have c: "compute (example_config False) counter ''a'' [JStr ''a''] 102
             (?st\<lparr>cache := AList.delete ''a'' (cache ?st)\<rparr>) =
           (Return (JNum 1),
        \<lparr>cache = [(''a'', \<lparr>entry_value = JNum 1, expiresAt = 202, isError = False\<rparr>)],
         world = Suc (Suc 0), invoked = [[JStr ''a''], [JStr ''a'']], handles = []\<rparr>)"
    by (simp add: compute_def counter_def example_config_def)
  from th [of 100 100] th [of 101 102] c k e show ?thesis by simp
qed

section \<open>A miss whose invocation returns\<close>

lemma first_miss_sync:
  assumes k: "keyGenerator cfg args = Inr key"
    and miss: "\<not> live now key (cache st)"
    and f: "fn (world st) args = (Return v, w')"
    and np: "instanceof_Promise v = None"
    and m: "memoized cfg fn args now now_set st = (r1, st1)"
  shows "r1 = Return v"
    and "map_of (cache st1) key =
           Some \<lparr>entry_value = v, expiresAt = now_set + ttl cfg, isError = False\<rparr>"
    and "invoked st1 = invoked st @ [args]"
    and "handles st1 = handles st"
proof -
  have "memoized cfg fn args now now_set st =
          compute cfg fn key args now_set (st\<lparr>cache := AList.delete key (cache st)\<rparr>)"
    using k miss by (rule memoized_miss)
  also have "\<dots> = (Return v,
      st\<lparr>cache := AList.delete key (cache st), world := w', invoked := invoked st @ [args],
         cache := AList.update key
            \<lparr>entry_value = v, expiresAt = now_set + ttl cfg, isError = False\<rparr>
            (AList.delete key (cache st))\<rparr>)"
    using f np by (simp add: compute_sync)
  finally have eq: "(r1, st1) = (Return v,
      st\<lparr>cache := AList.delete key (cache st), world := w', invoked := invoked st @ [args],
         cache := AList.update key
            \<lparr>entry_value = v, expiresAt = now_set + ttl cfg, isError = False\<rparr>
            (AList.delete key (cache st))\<rparr>)"
    using m by simp
  from eq show "r1 = Return v" by simp
  from eq show "map_of (cache st1) key =
           Some \<lparr>entry_value = v, expiresAt = now_set + ttl cfg, isError = False\<rparr>"
    by (simp add: update_conv')
  from eq show "invoked st1 = invoked st @ [args]" by simp
  from eq show "handles st1 = handles st" by simp
qed

lemma first_miss_async:
  assumes k: "keyGenerator cfg args = Inr key"
    and miss: "\<not> live now key (cache st)"
    and f: "fn (world st) args = (Return (JPromise src), w')"
    and m: "memoized cfg fn args now now_set st = (r1, st1)"
  shows "r1 = Return (JPromise (Derived (length (handles st))))"
    and "map_of (cache st1) key =
           Some \<lparr>entry_value = JPromise (Derived (length (handles st))),
                 expiresAt = now_set + ttl cfg, isError = False\<rparr>"
    and "invoked st1 = invoked st @ [args]"
    and "handles st1 = handles st @ [Waiting src key]"
proof -
  let ?h = "JPromise (Derived (length (handles st)))"
  have "memoized cfg fn args now now_set st =
          compute cfg fn key args now_set (st\<lparr>cache := AList.delete key (cache st)\<rparr>)"
    using k miss by (rule memoized_miss)
  also have "\<dots> = (Return ?h,
      st\<lparr>cache := AList.delete key (cache st), world := w', invoked := invoked st @ [args],
         handles := handles st @ [Waiting src key],
         cache := AList.update key
            \<lparr>entry_value = ?h, expiresAt = now_set + ttl cfg, isError = False\<rparr>
            (AList.delete key (cache st))\<rparr>)"
    using f by (simp add: compute_async)
  finally have eq: "(r1, st1) = (Return ?h,
      st\<lparr>cache := AList.delete key (cache st), world := w', invoked := invoked st @ [args],
         handles := handles st @ [Waiting src key],
         cache := AList.update key
            \<lparr>entry_value = ?h, expiresAt = now_set + ttl cfg, isError = False\<rparr>
            (AList.delete key (cache st))\<rparr>)"
    using m by simp
  from eq show "r1 = Return ?h" by simp
  from eq show "map_of (cache st1) key =
           Some \<lparr>entry_value = ?h, expiresAt = now_set + ttl cfg, isError = False\<rparr>"
    by (simp add: update_conv')
  from eq show "invoked st1 = invoked st @ [args]" by simp
  from eq show "handles st1 = handles st @ [Waiting src key]" by simp
qed

lemma first_miss_returns:
  assumes k: "keyGenerator cfg args = Inr key"
    and miss: "\<not> live now key (cache st)"
    and f: "fn (world st) args = (Return v, w')"
    and m: "memoized cfg fn args now now_set st = (r1, st1)"
  shows "\<exists>r. r1 = Return r \<and>
           map_of (cache st1) key =
             Some \<lparr>entry_value = r, expiresAt = now_set + ttl cfg, isError = False\<rparr> \<and>
           invoked st1 = invoked st @ [args]"
proof (cases "instanceof_Promise v")
  case None
  from first_miss_sync [OF k miss f None m] show ?thesis by simp
next
  case (Some src)
  then have v: "v = JPromise src" by (cases v) simp_all
  from first_miss_async [OF k miss f [unfolded v] m] show ?thesis by simp
qed

section \<open>Falsy results\<close>

text \<open>
  C10. A synchronous result that is falsy (\<^verbatim>\<open>undefined\<close>, \<^verbatim>\<open>null\<close>, \<^verbatim>\<open>0\<close>, \<^verbatim>\<open>false\<close>,
  the empty string) is cached like any other: the call that misses stores it and
  returns it, and a second call with the same arguments, at a lookup no later than the
  entry's expiry, returns it from the entry without invoking the underlying function,
  so that the underlying function has been invoked exactly once.
\<close>

theorem falsy_result_cached:
  assumes "keyGenerator cfg args = Inr key"
    and "\<not> live now key (cache st)"
    and "fn (world st) args = (Return v, w')"
    and "falsy v"
    and "memoized cfg fn args now now_set st = (r1, st1)"
    and "now2 \<le> now_set + ttl cfg"
  shows "r1 = Return v \<and>
         map_of (cache st1) key =
           Some \<lparr>entry_value = v, expiresAt = now_set + ttl cfg, isError = False\<rparr> \<and>
         memoized cfg fn args now2 now_set2 st1 = (Return v, st1) \<and>
         invoked st1 = invoked st @ [args]"
proof -
  from assms(4) have np: "instanceof_Promise v = None" by (rule falsy_not_promise)
  note fm = first_miss_sync [OF assms(1) assms(2) assms(3) np assms(5)]
  have "memoized cfg fn args now2 now_set2 st1 = (Return v, st1)"
    using memoized_hit [OF assms(1) fm(2), of now2 fn now_set2] assms(6) by simp
  with fm show ?thesis by simp
qed

theorem falsy_result_cached_witness:
  "keyGenerator (example_config False) [JStr ''a''] = Inr ''a'' \<and>
   \<not> live 0 ''a'' (cache (init (0::nat))) \<and>
   counter 0 [JStr ''a''] = (Return (JNum 0), Suc 0) \<and>
   falsy (JNum 0) \<and>
   memoized (example_config False) counter [JStr ''a''] 0 1 (init 0) =
     (Return (JNum 0),
      \<lparr>cache = [(''a'', \<lparr>entry_value = JNum 0, expiresAt = 101, isError = False\<rparr>)],
       world = Suc 0, invoked = [[JStr ''a'']], handles = []\<rparr>) \<and>
   memoized (example_config False) counter [JStr ''a''] 101 101
      \<lparr>cache = [(''a'', \<lparr>entry_value = JNum 0, expiresAt = 101, isError = False\<rparr>)],
       world = Suc 0, invoked = [[JStr ''a'']], handles = []\<rparr> =
     (Return (JNum 0),
      \<lparr>cache = [(''a'', \<lparr>entry_value = JNum 0, expiresAt = 101, isError = False\<rparr>)],
       world = Suc 0, invoked = [[JStr ''a'']], handles = []\<rparr>)"
proof -
  let ?st1 = "\<lparr>cache = [(''a'', \<lparr>entry_value = JNum 0, expiresAt = 101, isError = False\<rparr>)],
       world = Suc 0, invoked = [[JStr ''a'']], handles = []\<rparr>"
  have k: "keyGenerator (example_config False) [JStr ''a''] = Inr ''a''"
    by (simp add: example_config_def string_key_def)
  have l: "\<not> live 0 ''a'' (cache (init (0::nat)))" by (simp add: live_def init_def)
  have f: "counter (world (init 0)) [JStr ''a''] = (Return (JNum 0), Suc 0)"
    by (simp add: counter_def init_def)
  have z: "falsy (JNum 0)" by simp
  have m: "memoized (example_config False) counter [JStr ''a''] 0 1 (init 0) = (Return (JNum 0), ?st1)"
    by (simp add: memoized_def lookup_def compute_def counter_def example_config_def
        string_key_def init_def)
  have t: "(101::int) \<le> 1 + ttl (example_config False)" by (simp add: example_config_def)
  from falsy_result_cached [OF k l f z m t, of 101] k l f z m show ?thesis
    by (simp add: init_def)
qed

section \<open>Cached errors\<close>

lemma error_entry:
  assumes "keyGenerator cfg args = Inr key"
    and "map_of (cache st) key = Some \<lparr>entry_value = err, expiresAt = E, isError = True\<rparr>"
  shows "(t \<le> E \<longrightarrow> memoized cfg fn args t t' st = (Throw err, st)) \<and>
         (E < t \<longrightarrow> invoked (snd (memoized cfg fn args t t' st)) = invoked st @ [args])"
proof (intro conjI impI)
  assume "t \<le> E"
  with memoized_hit [OF assms, of t fn t'] show "memoized cfg fn args t t' st = (Throw err, st)"
    by simp
next
  assume "E < t"
  with assms(2) have "\<not> live t key (cache st)" by (simp add: live_def)
  from memoized_miss [OF assms(1) this]
  show "invoked (snd (memoized cfg fn args t t' st)) = invoked st @ [args]"
    by (simp add: compute_invoked)
qed

lemma first_miss_throws:
  assumes k: "keyGenerator cfg args = Inr key"
    and miss: "\<not> live now key (cache st)"
    and f: "fn (world st) args = (Throw err, w')"
    and m: "memoized cfg fn args now now_set st = (r1, st1)"
  shows "r1 = Throw err"
    and "invoked st1 = invoked st @ [args]"
    and "handles st1 = handles st"
    and "cacheErrors cfg \<Longrightarrow> map_of (cache st1) key =
           Some \<lparr>entry_value = err, expiresAt = now_set + errorTTL cfg, isError = True\<rparr>"
    and "\<not> cacheErrors cfg \<Longrightarrow> map_of (cache st1) key = None"
proof -
  have "memoized cfg fn args now now_set st =
          compute cfg fn key args now_set (st\<lparr>cache := AList.delete key (cache st)\<rparr>)"
    using k miss by (rule memoized_miss)
  also have "\<dots> = (Throw err,
      st\<lparr>cache := AList.delete key (cache st), world := w', invoked := invoked st @ [args],
         cache := (if cacheErrors cfg then AList.update key
            \<lparr>entry_value = err, expiresAt = now_set + errorTTL cfg, isError = True\<rparr>
            (AList.delete key (cache st)) else AList.delete key (cache st))\<rparr>)"
    using f by (simp add: compute_throw)
  finally have eq: "(r1, st1) = (Throw err,
      st\<lparr>cache := AList.delete key (cache st), world := w', invoked := invoked st @ [args],
         cache := (if cacheErrors cfg then AList.update key
            \<lparr>entry_value = err, expiresAt = now_set + errorTTL cfg, isError = True\<rparr>
            (AList.delete key (cache st)) else AList.delete key (cache st))\<rparr>)"
    using m by simp
  from eq show "r1 = Throw err" by simp
  from eq show "invoked st1 = invoked st @ [args]" by simp
  from eq show "handles st1 = handles st" by simp
  from eq show "cacheErrors cfg \<Longrightarrow> map_of (cache st1) key =
           Some \<lparr>entry_value = err, expiresAt = now_set + errorTTL cfg, isError = True\<rparr>"
    by (simp add: update_conv')
  from eq show "\<not> cacheErrors cfg \<Longrightarrow> map_of (cache st1) key = None"
    by (simp add: delete_conv')
qed


section \<open>Facts about settlement\<close>

lemma settle_fulfil:
  assumes "n < length (handles st)" and "handles st ! n = Waiting src key"
  shows "settle cfg n (Return val) now st =
           st\<lparr>cache := AList.update key
                   \<lparr>entry_value = val, expiresAt = now + ttl cfg, isError = False\<rparr> (cache st),
              handles := (handles st)[n := Fulfilled val]\<rparr>"
  using assms by (simp add: settle_def on_fulfilled_def)

lemma settle_reject:
  assumes "n < length (handles st)" and "handles st ! n = Waiting src key"
  shows "settle cfg n (Throw err) now st =
           st\<lparr>cache := (if cacheErrors cfg
                         then AList.update key
                           \<lparr>entry_value = err, expiresAt = now + errorTTL cfg, isError = True\<rparr>
                           (cache st)
                         else AList.delete key (cache st)),
              handles := (handles st)[n := Rejected err]\<rparr>"
  using assms by (simp add: settle_def on_rejected_def)

lemma settle_handle:
  assumes "n < length (handles st)" and "handles st ! n = Waiting src key"
  shows "handles (settle cfg n (Return val) now st) ! n = Fulfilled val"
    and "handles (settle cfg n (Throw err) now st) ! n = Rejected err"
  using assms by (simp_all add: settle_fulfil settle_reject)

section \<open>Asynchronous success\<close>

text \<open>
  C7. When the source promise of a pending computation is fulfilled with \<open>val\<close> at
  clock reading \<open>now\<close>, the entry of its fingerprint becomes \<open>val\<close> with expiry
  \<open>now + ttl\<close>, counted from the settlement and not from the invocation; the promise
  that the original caller and the joined callers hold is fulfilled with \<open>val\<close>; other
  entries are untouched; and any call with that fingerprint up to \<open>now + ttl\<close> is served
  \<open>val\<close> from the entry.
\<close>

theorem async_success_stored:
  assumes "n < length (handles st)"
    and "handles st ! n = Waiting src key"
    and "settle cfg n (Return val) now st = st'"
  shows "map_of (cache st') key =
           Some \<lparr>entry_value = val, expiresAt = now + ttl cfg, isError = False\<rparr> \<and>
         handles st' ! n = Fulfilled val \<and>
         invoked st' = invoked st \<and>
         (\<forall>key'. key' \<noteq> key \<longrightarrow> map_of (cache st') key' = map_of (cache st) key') \<and>
         (\<forall>args t t'. keyGenerator cfg args = Inr key \<and> t \<le> now + ttl cfg \<longrightarrow>
            memoized cfg fn args t t' st' = (Return val, st'))"
proof -
  have eq: "st' = st\<lparr>cache := AList.update key
                   \<lparr>entry_value = val, expiresAt = now + ttl cfg, isError = False\<rparr> (cache st),
              handles := (handles st)[n := Fulfilled val]\<rparr>"
    using settle_fulfil [OF assms(1,2)] assms(3) by simp
  have e: "map_of (cache st') key =
           Some \<lparr>entry_value = val, expiresAt = now + ttl cfg, isError = False\<rparr>"
    by (simp add: eq update_conv')
  have h: "handles st' ! n = Fulfilled val"
    using assms(1) by (simp add: eq)
  have i: "invoked st' = invoked st" by (simp add: eq)
  have o: "\<forall>key'. key' \<noteq> key \<longrightarrow> map_of (cache st') key' = map_of (cache st) key'"
    by (simp add: eq update_conv')
  have s: "\<forall>args t t'. keyGenerator cfg args = Inr key \<and> t \<le> now + ttl cfg \<longrightarrow>
            memoized cfg fn args t t' st' = (Return val, st')"
  proof (intro allI impI)
    fix args t t'
    assume a: "keyGenerator cfg args = Inr key \<and> t \<le> now + ttl cfg"
    then have k: "keyGenerator cfg args = Inr key" and t: "t \<le> now + ttl cfg" by simp_all
    from memoized_hit [OF k e, of t fn t'] t
    show "memoized cfg fn args t t' st' = (Return val, st')" by simp
  qed
  from e h i o s show ?thesis by blast
qed

theorem async_success_stored_witness:
  "(0::nat) < length (handles \<lparr>cache = [(''a'', \<lparr>entry_value = JPromise (Derived 0), expiresAt = 100, isError = False\<rparr>)],
       world = Suc 0, invoked = [[JStr ''a'']], handles = [Waiting (Ext 0) ''a'']\<rparr>) \<and>
   handles \<lparr>cache = [(''a'', \<lparr>entry_value = JPromise (Derived 0), expiresAt = 100, isError = False\<rparr>)],
       world = Suc 0, invoked = [[JStr ''a'']], handles = [Waiting (Ext 0) ''a'']\<rparr> ! 0 = Waiting (Ext 0) ''a'' \<and>
   settle (example_config False) 0 (Return (JNum 7)) 500 \<lparr>cache = [(''a'', \<lparr>entry_value = JPromise (Derived 0), expiresAt = 100, isError = False\<rparr>)],
       world = Suc 0, invoked = [[JStr ''a'']], handles = [Waiting (Ext 0) ''a'']\<rparr> =
     \<lparr>cache = [(''a'', \<lparr>entry_value = JNum 7, expiresAt = 600, isError = False\<rparr>)],
      world = Suc 0, invoked = [[JStr ''a'']], handles = [Fulfilled (JNum 7)]\<rparr> \<and>
   memoized (example_config False) fetch_async [JStr ''a''] 600 600
     \<lparr>cache = [(''a'', \<lparr>entry_value = JNum 7, expiresAt = 600, isError = False\<rparr>)],
      world = Suc 0, invoked = [[JStr ''a'']], handles = [Fulfilled (JNum 7)]\<rparr> =
    (Return (JNum 7),
     \<lparr>cache = [(''a'', \<lparr>entry_value = JNum 7, expiresAt = 600, isError = False\<rparr>)],
      world = Suc 0, invoked = [[JStr ''a'']], handles = [Fulfilled (JNum 7)]\<rparr>)"
proof -
  let ?s = "\<lparr>cache = [(''a'', \<lparr>entry_value = JPromise (Derived 0), expiresAt = 100, isError = False\<rparr>)],
       world = Suc 0, invoked = [[JStr ''a'']], handles = [Waiting (Ext 0) ''a'']\<rparr>"
  let ?s' = "\<lparr>cache = [(''a'', \<lparr>entry_value = JNum 7, expiresAt = 600, isError = False\<rparr>)],
      world = Suc 0, invoked = [[JStr ''a'']], handles = [Fulfilled (JNum 7)]\<rparr>"
  have n: "(0::nat) < length (handles ?s)" by simp
  have h: "handles ?s ! 0 = Waiting (Ext 0) ''a''" by simp
  have e: "settle (example_config False) 0 (Return (JNum 7)) 500 ?s = ?s'"
    by (simp add: settle_def on_fulfilled_def example_config_def)
  have k: "keyGenerator (example_config False) [JStr ''a''] = Inr ''a''"
    by (simp add: example_config_def string_key_def)
  have t: "(600::int) \<le> 500 + ttl (example_config False)" by (simp add: example_config_def)
  from async_success_stored [OF n h e, of fetch_async] k t
  have "memoized (example_config False) fetch_async [JStr ''a''] 600 600 ?s' = (Return (JNum 7), ?s')"
    by blast
  with n h e show ?thesis by simp
qed

section \<open>Asynchronous failure without error caching\<close>

text \<open>
  C4. When the source promise of a pending computation is rejected with \<open>err\<close> and
  \<^verbatim>\<open>cacheErrors\<close> is off, the entry of its fingerprint is deleted, other entries are
  untouched, the promise that the original caller and the joined callers hold is
  rejected with \<open>err\<close>, and the next call with that fingerprint, at any time, invokes
  the underlying function.
\<close>

theorem async_failure_not_cached:
  assumes "\<not> cacheErrors cfg"
    and "n < length (handles st)"
    and "handles st ! n = Waiting src key"
    and "settle cfg n (Throw err) now st = st'"
  shows "map_of (cache st') key = None \<and>
         handles st' ! n = Rejected err \<and>
         (\<forall>key'. key' \<noteq> key \<longrightarrow> map_of (cache st') key' = map_of (cache st) key') \<and>
         (\<forall>args t t'. keyGenerator cfg args = Inr key \<longrightarrow>
            invoked (snd (memoized cfg fn args t t' st')) = invoked st' @ [args])"
proof -
  have eq: "st' = st\<lparr>cache := AList.delete key (cache st),
              handles := (handles st)[n := Rejected err]\<rparr>"
    using settle_reject [OF assms(2,3), of cfg err now] assms(1,4) by simp
  have e: "map_of (cache st') key = None"
    by (simp add: eq delete_conv')
  have h: "handles st' ! n = Rejected err"
    using assms(2) by (simp add: eq)
  have o: "\<forall>key'. key' \<noteq> key \<longrightarrow> map_of (cache st') key' = map_of (cache st) key'"
    by (simp add: eq delete_conv')
  have s: "\<forall>args t t'. keyGenerator cfg args = Inr key \<longrightarrow>
            invoked (snd (memoized cfg fn args t t' st')) = invoked st' @ [args]"
  proof (intro allI impI)
    fix args t t'
    assume k: "keyGenerator cfg args = Inr key"
    from e have "\<not> live t key (cache st')" by (simp add: live_def)
    from memoized_miss [OF k this]
    show "invoked (snd (memoized cfg fn args t t' st')) = invoked st' @ [args]"
      by (simp add: compute_invoked)
  qed
  from e h o s show ?thesis by blast
qed


theorem async_failure_not_cached_witness:
  "\<not> cacheErrors (example_config False) \<and>
   (0::nat) < length (handles \<lparr>cache = [(''a'', \<lparr>entry_value = JPromise (Derived 0), expiresAt = 100, isError = False\<rparr>)],
       world = Suc 0, invoked = [[JStr ''a'']], handles = [Waiting (Ext 0) ''a'']\<rparr>) \<and>
   handles \<lparr>cache = [(''a'', \<lparr>entry_value = JPromise (Derived 0), expiresAt = 100, isError = False\<rparr>)],
       world = Suc 0, invoked = [[JStr ''a'']], handles = [Waiting (Ext 0) ''a'']\<rparr> ! 0 = Waiting (Ext 0) ''a'' \<and>
   settle (example_config False) 0 (Throw (JObj 9)) 50 \<lparr>cache = [(''a'', \<lparr>entry_value = JPromise (Derived 0), expiresAt = 100, isError = False\<rparr>)],
       world = Suc 0, invoked = [[JStr ''a'']], handles = [Waiting (Ext 0) ''a'']\<rparr> =
     \<lparr>cache = [], world = Suc 0, invoked = [[JStr ''a'']], handles = [Rejected (JObj 9)]\<rparr> \<and>
   invoked (snd (memoized (example_config False) fetch_async [JStr ''a''] 50 50
     \<lparr>cache = [], world = Suc 0, invoked = [[JStr ''a'']], handles = [Rejected (JObj 9)]\<rparr>)) =
     [[JStr ''a''], [JStr ''a'']]"
proof -
  let ?s = "\<lparr>cache = [(''a'', \<lparr>entry_value = JPromise (Derived 0), expiresAt = 100, isError = False\<rparr>)],
       world = Suc 0, invoked = [[JStr ''a'']], handles = [Waiting (Ext 0) ''a'']\<rparr>"
  let ?s' = "\<lparr>cache = [], world = Suc 0, invoked = [[JStr ''a'']],
      handles = [Rejected (JObj 9)]\<rparr> :: nat state"
  have c: "\<not> cacheErrors (example_config False)" by (simp add: example_config_def)
  have n: "(0::nat) < length (handles ?s)" by simp
  have h: "handles ?s ! 0 = Waiting (Ext 0) ''a''" by simp
  have e: "settle (example_config False) 0 (Throw (JObj 9)) 50 ?s = ?s'"
    by (simp add: settle_def on_rejected_def example_config_def)
  have k: "keyGenerator (example_config False) [JStr ''a''] = Inr ''a''"
    by (simp add: example_config_def string_key_def)
  from async_failure_not_cached [OF c n h e, of fetch_async] k
  have "invoked (snd (memoized (example_config False) fetch_async [JStr ''a''] 50 50 ?s')) =
          invoked ?s' @ [[JStr ''a'']]"
    by blast
  with c n h e show ?thesis by simp
qed

section \<open>Error caching\<close>

text \<open>
  C5. With \<^verbatim>\<open>cacheErrors\<close> on: when a call misses and the underlying function throws
  \<open>err\<close>, the call throws \<open>err\<close> after one invocation; an identical call whose lookup
  is no later than \<open>errorTTL\<close> after the store throws that same stored value and
  leaves the state as it is, so the underlying function is not invoked again; an
  identical call after that invokes the underlying function again. The same holds
  after an asynchronous failure, counted from the clock of the rejection's
  continuation.
\<close>

theorem error_caching:
  assumes "cacheErrors cfg" and "keyGenerator cfg args = Inr key"
  shows "(\<not> live now key (cache st) \<and> fn (world st) args = (Throw err, w') \<and>
          memoized cfg fn args now now_set st = (r1, st1) \<longrightarrow>
            r1 = Throw err \<and> invoked st1 = invoked st @ [args] \<and>
            (t \<le> now_set + errorTTL cfg \<longrightarrow>
               memoized cfg fn args t t' st1 = (Throw err, st1)) \<and>
            (now_set + errorTTL cfg < t \<longrightarrow>
               invoked (snd (memoized cfg fn args t t' st1)) = invoked st1 @ [args])) \<and>
         (n < length (handles st) \<and> handles st ! n = Waiting src key \<and>
          settle cfg n (Throw err) s st = st2 \<longrightarrow>
            handles st2 ! n = Rejected err \<and> invoked st2 = invoked st \<and>
            (t \<le> s + errorTTL cfg \<longrightarrow>
               memoized cfg fn args t t' st2 = (Throw err, st2)) \<and>
            (s + errorTTL cfg < t \<longrightarrow>
               invoked (snd (memoized cfg fn args t t' st2)) = invoked st2 @ [args]))"
proof (intro conjI impI)
  assume a: "\<not> live now key (cache st) \<and> fn (world st) args = (Throw err, w') \<and>
          memoized cfg fn args now now_set st = (r1, st1)"
  then have miss: "\<not> live now key (cache st)" and f: "fn (world st) args = (Throw err, w')"
    and m: "memoized cfg fn args now now_set st = (r1, st1)" by simp_all
  note fm = first_miss_throws [OF assms(2) miss f m]
  from fm(1) show "r1 = Throw err" .
  from fm(2) show "invoked st1 = invoked st @ [args]" .
  note ee = error_entry [OF assms(2) fm(4) [OF assms(1)], of t fn t']
  { assume "t \<le> now_set + errorTTL cfg"
    with ee show "memoized cfg fn args t t' st1 = (Throw err, st1)" by simp }
  { assume "now_set + errorTTL cfg < t"
    with ee show "invoked (snd (memoized cfg fn args t t' st1)) = invoked st1 @ [args]" by simp }
next
  assume a: "n < length (handles st) \<and> handles st ! n = Waiting src key \<and>
          settle cfg n (Throw err) s st = st2"
  then have n: "n < length (handles st)" and h: "handles st ! n = Waiting src key"
    and e: "settle cfg n (Throw err) s st = st2" by simp_all
  have eq: "st2 = st\<lparr>cache := AList.update key
                           \<lparr>entry_value = err, expiresAt = s + errorTTL cfg, isError = True\<rparr>
                           (cache st),
              handles := (handles st)[n := Rejected err]\<rparr>"
    using settle_reject [OF n h, of cfg err s] assms(1) e by simp
  show "handles st2 ! n = Rejected err" using n by (simp add: eq)
  show "invoked st2 = invoked st" by (simp add: eq)
  have en: "map_of (cache st2) key =
      Some \<lparr>entry_value = err, expiresAt = s + errorTTL cfg, isError = True\<rparr>"
    by (simp add: eq update_conv')
  note ee = error_entry [OF assms(2) en, of t fn t']
  { assume "t \<le> s + errorTTL cfg"
    with ee show "memoized cfg fn args t t' st2 = (Throw err, st2)" by simp }
  { assume "s + errorTTL cfg < t"
    with ee show "invoked (snd (memoized cfg fn args t t' st2)) = invoked st2 @ [args]" by simp }
qed


theorem error_caching_witness:
  "cacheErrors (example_config True) \<and>
   keyGenerator (example_config True) [JStr ''a''] = Inr ''a'' \<and>
   \<not> live 0 ''a'' (cache (init (0::nat))) \<and>
   failing 0 [JStr ''a''] = (Throw (JObj 0), Suc 0) \<and>
   memoized (example_config True) failing [JStr ''a''] 0 0 (init 0) = (Throw (JObj 0), \<lparr>cache = [(''a'', \<lparr>entry_value = JObj 0, expiresAt = 50, isError = True\<rparr>)],
       world = Suc 0, invoked = [[JStr ''a'']], handles = []\<rparr>) \<and>
   memoized (example_config True) failing [JStr ''a''] 50 50 \<lparr>cache = [(''a'', \<lparr>entry_value = JObj 0, expiresAt = 50, isError = True\<rparr>)],
       world = Suc 0, invoked = [[JStr ''a'']], handles = []\<rparr> = (Throw (JObj 0), \<lparr>cache = [(''a'', \<lparr>entry_value = JObj 0, expiresAt = 50, isError = True\<rparr>)],
       world = Suc 0, invoked = [[JStr ''a'']], handles = []\<rparr>) \<and>
   invoked (snd (memoized (example_config True) failing [JStr ''a''] 51 51 \<lparr>cache = [(''a'', \<lparr>entry_value = JObj 0, expiresAt = 50, isError = True\<rparr>)],
       world = Suc 0, invoked = [[JStr ''a'']], handles = []\<rparr>)) =
     [[JStr ''a''], [JStr ''a'']] \<and>
   settle (example_config True) 0 (Throw (JObj 9)) 70 \<lparr>cache = [(''a'', \<lparr>entry_value = JPromise (Derived 0), expiresAt = 100, isError = False\<rparr>)],
       world = Suc 0, invoked = [[JStr ''a'']], handles = [Waiting (Ext 0) ''a'']\<rparr> = \<lparr>cache = [(''a'', \<lparr>entry_value = JObj 9, expiresAt = 120, isError = True\<rparr>)],
       world = Suc 0, invoked = [[JStr ''a'']], handles = [Rejected (JObj 9)]\<rparr> \<and>
   memoized (example_config True) failing [JStr ''a''] 120 120 \<lparr>cache = [(''a'', \<lparr>entry_value = JObj 9, expiresAt = 120, isError = True\<rparr>)],
       world = Suc 0, invoked = [[JStr ''a'']], handles = [Rejected (JObj 9)]\<rparr> = (Throw (JObj 9), \<lparr>cache = [(''a'', \<lparr>entry_value = JObj 9, expiresAt = 120, isError = True\<rparr>)],
       world = Suc 0, invoked = [[JStr ''a'']], handles = [Rejected (JObj 9)]\<rparr>) \<and>
   invoked (snd (memoized (example_config True) failing [JStr ''a''] 121 121 \<lparr>cache = [(''a'', \<lparr>entry_value = JObj 9, expiresAt = 120, isError = True\<rparr>)],
       world = Suc 0, invoked = [[JStr ''a'']], handles = [Rejected (JObj 9)]\<rparr>)) =
     [[JStr ''a''], [JStr ''a'']]"
proof -
  let ?cfg = "example_config True"
  let ?a = "[JStr ''a'']"
  let ?e1 = "\<lparr>cache = [(''a'', \<lparr>entry_value = JObj 0, expiresAt = 50, isError = True\<rparr>)],
       world = Suc 0, invoked = [[JStr ''a'']], handles = []\<rparr>"
  let ?s1 = "\<lparr>cache = [(''a'', \<lparr>entry_value = JPromise (Derived 0), expiresAt = 100, isError = False\<rparr>)],
       world = Suc 0, invoked = [[JStr ''a'']], handles = [Waiting (Ext 0) ''a'']\<rparr>"
  let ?e2 = "\<lparr>cache = [(''a'', \<lparr>entry_value = JObj 9, expiresAt = 120, isError = True\<rparr>)],
       world = Suc 0, invoked = [[JStr ''a'']], handles = [Rejected (JObj 9)]\<rparr>"
  have c: "cacheErrors ?cfg" by (simp add: example_config_def)
  have k: "keyGenerator ?cfg ?a = Inr ''a''" by (simp add: example_config_def string_key_def)
  have l: "\<not> live 0 ''a'' (cache (init (0::nat)))" by (simp add: live_def init_def)
  have f: "failing (world (init 0)) ?a = (Throw (JObj 0), Suc 0)"
    by (simp add: failing_def init_def)
  have m: "memoized ?cfg failing ?a 0 0 (init 0) = (Throw (JObj 0), ?e1)"
    by (simp add: memoized_def lookup_def compute_def failing_def example_config_def
        string_key_def init_def)
  have n: "(0::nat) < length (handles ?s1)" by simp
  have h: "handles ?s1 ! 0 = Waiting (Ext 0) ''a''" by simp
  have e: "settle ?cfg 0 (Throw (JObj 9)) 70 ?s1 = ?e2"
    by (simp add: settle_def on_rejected_def example_config_def)
  have t: "errorTTL ?cfg = 50" by (simp add: example_config_def)
  note th = error_caching [OF c k, where fn = failing and now = 0 and st = "init 0"
      and err = "JObj 0" and w' = "Suc 0" and now_set = 0 and ?r1.0 = "Throw (JObj 0)"
      and ?st1.0 = ?e1]
  note th2 = error_caching [OF c k, where fn = failing and n = 0 and st = ?s1
      and src = "Ext 0" and err = "JObj 9" and s = 70 and ?st2.0 = ?e2]
  from th [of 50 50] l f m t
  have a1: "memoized ?cfg failing ?a 50 50 ?e1 = (Throw (JObj 0), ?e1)" by simp
  from th [of 51 51] l f m t
  have a2: "invoked (snd (memoized ?cfg failing ?a 51 51 ?e1)) = [[JStr ''a''], [JStr ''a'']]"
    by simp
  from th2 [of 120 120] n h e t
  have a3: "memoized ?cfg failing ?a 120 120 ?e2 = (Throw (JObj 9), ?e2)" by simp
  from th2 [of 121 121] n h e t
  have a4: "invoked (snd (memoized ?cfg failing ?a 121 121 ?e2)) = [[JStr ''a''], [JStr ''a'']]"
    by simp
  from c k l f m e a1 a2 a3 a4 show ?thesis by (simp add: init_def)
qed

section \<open>Failures stay failures, successes stay successes\<close>

text \<open>
  C6. The call that triggers a computation observes the outcome of the underlying
  function as it is, whatever \<^verbatim>\<open>cacheErrors\<close> says: a synchronous throw of \<open>err\<close> is
  thrown to the caller as \<open>err\<close> (and stored, if at all, as an error entry); a
  synchronous result is returned (and stored as a value entry); for a pending result
  the caller gets a promise that is rejected with \<open>err\<close> when the source promise is
  rejected with \<open>err\<close>, and fulfilled with \<open>val\<close> when the source promise is fulfilled
  with \<open>val\<close>. A call served from an entry throws exactly when the entry is an error
  entry.
\<close>

theorem outcome_preserved:
  assumes "keyGenerator cfg args = Inr key"
  shows "(\<not> live now key (cache st) \<and> fn (world st) args = (Throw err, w') \<and>
          memoized cfg fn args now now_set st = (r1, st1) \<longrightarrow>
            r1 = Throw err \<and>
            map_of (cache st1) key =
              (if cacheErrors cfg
               then Some \<lparr>entry_value = err, expiresAt = now_set + errorTTL cfg,
                           isError = True\<rparr>
               else None)) \<and>
         (\<not> live now key (cache st) \<and> fn (world st) args = (Return v, w') \<and>
          instanceof_Promise v = None \<and>
          memoized cfg fn args now now_set st = (r1, st1) \<longrightarrow>
            r1 = Return v \<and>
            map_of (cache st1) key =
              Some \<lparr>entry_value = v, expiresAt = now_set + ttl cfg, isError = False\<rparr>) \<and>
         (\<not> live now key (cache st) \<and> fn (world st) args = (Return (JPromise src), w') \<and>
          memoized cfg fn args now now_set st = (r1, st1) \<longrightarrow>
            r1 = Return (JPromise (Derived (length (handles st)))) \<and>
            handles (settle cfg (length (handles st)) (Throw err) s st1) ! length (handles st)
              = Rejected err \<and>
            handles (settle cfg (length (handles st)) (Return val) s st1) ! length (handles st)
              = Fulfilled val) \<and>
         (map_of (cache st) key = Some e \<and> now \<le> expiresAt e \<longrightarrow>
            memoized cfg fn args now now_set st =
              (if isError e then Throw (entry_value e) else Return (entry_value e), st))"
proof (intro conjI impI)
  assume a: "\<not> live now key (cache st) \<and> fn (world st) args = (Throw err, w') \<and>
          memoized cfg fn args now now_set st = (r1, st1)"
  then have miss: "\<not> live now key (cache st)" and f: "fn (world st) args = (Throw err, w')"
    and m: "memoized cfg fn args now now_set st = (r1, st1)" by simp_all
  note fm = first_miss_throws [OF assms miss f m]
  from fm(1) show "r1 = Throw err" .
  from fm(4,5) show "map_of (cache st1) key =
              (if cacheErrors cfg
               then Some \<lparr>entry_value = err, expiresAt = now_set + errorTTL cfg,
                           isError = True\<rparr>
               else None)"
    by simp
next
  assume a: "\<not> live now key (cache st) \<and> fn (world st) args = (Return v, w') \<and>
          instanceof_Promise v = None \<and> memoized cfg fn args now now_set st = (r1, st1)"
  then have miss: "\<not> live now key (cache st)" and f: "fn (world st) args = (Return v, w')"
    and np: "instanceof_Promise v = None"
    and m: "memoized cfg fn args now now_set st = (r1, st1)" by simp_all
  note fm = first_miss_sync [OF assms miss f np m]
  from fm(1) show "r1 = Return v" .
  from fm(2) show "map_of (cache st1) key =
              Some \<lparr>entry_value = v, expiresAt = now_set + ttl cfg, isError = False\<rparr>" .
next
  assume a: "\<not> live now key (cache st) \<and> fn (world st) args = (Return (JPromise src), w') \<and>
          memoized cfg fn args now now_set st = (r1, st1)"
  then have miss: "\<not> live now key (cache st)"
    and f: "fn (world st) args = (Return (JPromise src), w')"
    and m: "memoized cfg fn args now now_set st = (r1, st1)" by simp_all
  note fm = first_miss_async [OF assms miss f m]
  from fm(1) show "r1 = Return (JPromise (Derived (length (handles st))))" .
  from fm(4) have n: "length (handles st) < length (handles st1)"
    and h: "handles st1 ! length (handles st) = Waiting src key" by simp_all
  from settle_handle(2) [OF n h]
  show "handles (settle cfg (length (handles st)) (Throw err) s st1) ! length (handles st)
              = Rejected err" .
  from settle_handle(1) [OF n h]
  show "handles (settle cfg (length (handles st)) (Return val) s st1) ! length (handles st)
              = Fulfilled val" .
next
  assume "map_of (cache st) key = Some e \<and> now \<le> expiresAt e"
  then have e: "map_of (cache st) key = Some e" and t: "now \<le> expiresAt e" by simp_all
  from assms e t show "memoized cfg fn args now now_set st =
              (if isError e then Throw (entry_value e) else Return (entry_value e), st)"
    by (rule memoized_hit)
qed


theorem outcome_preserved_witness:
  "keyGenerator (example_config True) [JStr ''a''] = Inr ''a'' \<and>
   \<not> live 0 ''a'' (cache (init (0::nat))) \<and>
   failing 0 [JStr ''a''] = (Throw (JObj 0), Suc 0) \<and>
   memoized (example_config True) failing [JStr ''a''] 0 0 (init 0) = (Throw (JObj 0), \<lparr>cache = [(''a'', \<lparr>entry_value = JObj 0, expiresAt = 50, isError = True\<rparr>)],
       world = Suc 0, invoked = [[JStr ''a'']], handles = []\<rparr>) \<and>
   counter 0 [JStr ''a''] = (Return (JNum 0), Suc 0) \<and>
   instanceof_Promise (JNum 0) = None \<and>
   memoized (example_config True) counter [JStr ''a''] 0 0 (init 0) = (Return (JNum 0), \<lparr>cache = [(''a'', \<lparr>entry_value = JNum 0, expiresAt = 100, isError = False\<rparr>)],
       world = Suc 0, invoked = [[JStr ''a'']], handles = []\<rparr>) \<and>
   fetch_async 0 [JStr ''a''] = (Return (JPromise (Ext 0)), Suc 0) \<and>
   memoized (example_config True) fetch_async [JStr ''a''] 0 0 (init 0) =
     (Return (JPromise (Derived 0)), \<lparr>cache = [(''a'', \<lparr>entry_value = JPromise (Derived 0), expiresAt = 100, isError = False\<rparr>)],
       world = Suc 0, invoked = [[JStr ''a'']], handles = [Waiting (Ext 0) ''a'']\<rparr>) \<and>
   handles (settle (example_config True) 0 (Throw (JObj 9)) 70 \<lparr>cache = [(''a'', \<lparr>entry_value = JPromise (Derived 0), expiresAt = 100, isError = False\<rparr>)],
       world = Suc 0, invoked = [[JStr ''a'']], handles = [Waiting (Ext 0) ''a'']\<rparr>) ! 0 = Rejected (JObj 9) \<and>
   handles (settle (example_config True) 0 (Return (JNum 7)) 70 \<lparr>cache = [(''a'', \<lparr>entry_value = JPromise (Derived 0), expiresAt = 100, isError = False\<rparr>)],
       world = Suc 0, invoked = [[JStr ''a'']], handles = [Waiting (Ext 0) ''a'']\<rparr>) ! 0 = Fulfilled (JNum 7) \<and>
   map_of (cache \<lparr>cache = [(''a'', \<lparr>entry_value = JObj 0, expiresAt = 50, isError = True\<rparr>)],
       world = Suc 0, invoked = [[JStr ''a'']], handles = []\<rparr>) ''a'' = Some \<lparr>entry_value = JObj 0, expiresAt = 50, isError = True\<rparr> \<and>
   memoized (example_config True) counter [JStr ''a''] 50 50 \<lparr>cache = [(''a'', \<lparr>entry_value = JObj 0, expiresAt = 50, isError = True\<rparr>)],
       world = Suc 0, invoked = [[JStr ''a'']], handles = []\<rparr> = (Throw (JObj 0), \<lparr>cache = [(''a'', \<lparr>entry_value = JObj 0, expiresAt = 50, isError = True\<rparr>)],
       world = Suc 0, invoked = [[JStr ''a'']], handles = []\<rparr>)"
proof -
  let ?cfg = "example_config True"
  let ?a = "[JStr ''a'']"
  let ?e1 = "\<lparr>cache = [(''a'', \<lparr>entry_value = JObj 0, expiresAt = 50, isError = True\<rparr>)],
       world = Suc 0, invoked = [[JStr ''a'']], handles = []\<rparr>"
  let ?v1 = "\<lparr>cache = [(''a'', \<lparr>entry_value = JNum 0, expiresAt = 100, isError = False\<rparr>)],
       world = Suc 0, invoked = [[JStr ''a'']], handles = []\<rparr>"
  let ?s1 = "\<lparr>cache = [(''a'', \<lparr>entry_value = JPromise (Derived 0), expiresAt = 100, isError = False\<rparr>)],
       world = Suc 0, invoked = [[JStr ''a'']], handles = [Waiting (Ext 0) ''a'']\<rparr>"
  have k: "keyGenerator ?cfg ?a = Inr ''a''" by (simp add: example_config_def string_key_def)
  have l: "\<not> live 0 ''a'' (cache (init (0::nat)))" by (simp add: live_def init_def)
  have f1: "failing (world (init 0)) ?a = (Throw (JObj 0), Suc 0)"
    by (simp add: failing_def init_def)
  have m1: "memoized ?cfg failing ?a 0 0 (init 0) = (Throw (JObj 0), ?e1)"
    by (simp add: memoized_def lookup_def compute_def failing_def example_config_def
        string_key_def init_def)
  have f2: "counter (world (init 0)) ?a = (Return (JNum 0), Suc 0)"
    by (simp add: counter_def init_def)
  have np: "instanceof_Promise (JNum 0) = None" by simp
  have m2: "memoized ?cfg counter ?a 0 0 (init 0) = (Return (JNum 0), ?v1)"
    by (simp add: memoized_def lookup_def compute_def counter_def example_config_def
        string_key_def init_def)
  have f3: "fetch_async (world (init 0)) ?a = (Return (JPromise (Ext 0)), Suc 0)"
    by (simp add: fetch_async_def init_def)
  have m3: "memoized ?cfg fetch_async ?a 0 0 (init 0) = (Return (JPromise (Derived 0)), ?s1)"
    by (simp add: memoized_def lookup_def compute_def fetch_async_def example_config_def
        string_key_def init_def Let_def)
  have e: "map_of (cache ?e1) ''a'' =
      Some \<lparr>entry_value = JObj 0, expiresAt = 50, isError = True\<rparr>" by simp
  from outcome_preserved [OF k, where fn = fetch_async and now = 0 and st = "init 0"
      and src = "Ext 0" and w' = "Suc 0" and now_set = 0
      and ?r1.0 = "Return (JPromise (Derived 0))" and ?st1.0 = ?s1
      and err = "JObj 9" and val = "JNum 7" and s = 70] l f3 m3
  have a3: "handles (settle ?cfg 0 (Throw (JObj 9)) 70 ?s1) ! 0 = Rejected (JObj 9) \<and>
      handles (settle ?cfg 0 (Return (JNum 7)) 70 ?s1) ! 0 = Fulfilled (JNum 7)"
    by (simp add: init_def)
  from outcome_preserved [OF k, where fn = counter and now = 50 and st = ?e1
      and e = "\<lparr>entry_value = JObj 0, expiresAt = 50, isError = True\<rparr>" and now_set = 50] e
  have a4: "memoized ?cfg counter ?a 50 50 ?e1 = (Throw (JObj 0), ?e1)" by simp
  from k l f1 m1 f2 np m2 f3 m3 a3 e a4 show ?thesis by (simp add: init_def)
qed

section \<open>Manual clearing\<close>

text \<open>
  C8. \<^verbatim>\<open>clear()\<close> empties the store, after which \<^verbatim>\<open>stats()\<close> reports size 0 and no
  keys. \<^verbatim>\<open>clear(a)\<close> computes the fingerprint of the argument list \<open>a\<close> with the key
  generator of the configuration and removes the entry of that fingerprint: the store
  afterwards holds exactly the entries of the other fingerprints, in their order and
  with their contents.
\<close>

theorem clear_behaviour:
  "clear cfg None st = (Return JUndefined, st\<lparr>cache := []\<rparr>) \<and>
   stats (snd (clear cfg None st)) = (0, []) \<and>
   (keyGenerator cfg a = Inr k \<longrightarrow>
      clear cfg (Some a) st =
        (Return JUndefined, st\<lparr>cache := filter (\<lambda>p. fst p \<noteq> k) (cache st)\<rparr>) \<and>
      map_of (cache (snd (clear cfg (Some a) st))) k = None \<and>
      (\<forall>k'. k' \<noteq> k \<longrightarrow>
         map_of (cache (snd (clear cfg (Some a) st))) k' = map_of (cache st) k'))"
proof (intro conjI impI)
  show "clear cfg None st = (Return JUndefined, st\<lparr>cache := []\<rparr>)"
    by (simp add: clear_def)
  show "stats (snd (clear cfg None st)) = (0, [])"
    by (simp add: clear_def stats_def)
next
  assume k: "keyGenerator cfg a = Inr k"
  have "filter (\<lambda>(k', _). k \<noteq> k') (cache st) = filter (\<lambda>p. fst p \<noteq> k) (cache st)"
    by (rule filter_cong) auto
  then have f: "AList.delete k (cache st) = filter (\<lambda>p. fst p \<noteq> k) (cache st)"
    by (simp add: AList.delete_eq)
  have c: "clear cfg (Some a) st = (Return JUndefined, st\<lparr>cache := AList.delete k (cache st)\<rparr>)"
    using k by (simp add: clear_def)
  from c f show "clear cfg (Some a) st =
        (Return JUndefined, st\<lparr>cache := filter (\<lambda>p. fst p \<noteq> k) (cache st)\<rparr>)"
    by simp
  from c show "map_of (cache (snd (clear cfg (Some a) st))) k = None"
    by (simp add: delete_conv')
  from c show "\<forall>k'. k' \<noteq> k \<longrightarrow>
         map_of (cache (snd (clear cfg (Some a) st))) k' = map_of (cache st) k'"
    by (simp add: delete_conv')
qed

theorem clear_behaviour_witness:
  "keyGenerator (example_config False) [JStr ''1''] = Inr ''1'' \<and>
   clear (example_config False) (Some [JStr ''1''])
     \<lparr>cache = [(''1'', \<lparr>entry_value = JNum 0, expiresAt = 100, isError = False\<rparr>),
               (''2'', \<lparr>entry_value = JNum 1, expiresAt = 100, isError = False\<rparr>)],
      world = Suc (Suc 0), invoked = [[JStr ''1''], [JStr ''2'']], handles = []\<rparr> =
     (Return JUndefined,
      \<lparr>cache = [(''2'', \<lparr>entry_value = JNum 1, expiresAt = 100, isError = False\<rparr>)],
       world = Suc (Suc 0), invoked = [[JStr ''1''], [JStr ''2'']], handles = []\<rparr>) \<and>
   stats (snd (clear (example_config False) None
     \<lparr>cache = [(''1'', \<lparr>entry_value = JNum 0, expiresAt = 100, isError = False\<rparr>),
               (''2'', \<lparr>entry_value = JNum 1, expiresAt = 100, isError = False\<rparr>)],
      world = Suc (Suc 0), invoked = [[JStr ''1''], [JStr ''2'']], handles = []\<rparr>)) = (0, [])"
proof -
  have k: "keyGenerator (example_config False) [JStr ''1''] = Inr ''1''"
    by (simp add: example_config_def string_key_def)
  let ?st = "\<lparr>cache = [(''1'', \<lparr>entry_value = JNum 0, expiresAt = 100, isError = False\<rparr>),
               (''2'', \<lparr>entry_value = JNum 1, expiresAt = 100, isError = False\<rparr>)],
      world = Suc (Suc 0), invoked = [[JStr ''1''], [JStr ''2'']], handles = []\<rparr> :: nat state"
  note th = clear_behaviour [of "example_config False" ?st "[JStr ''1'']" "''1''"]
  from th have a: "stats (snd (clear (example_config False) None ?st)) = (0, [])"
    by blast
  from th k have "clear (example_config False) (Some [JStr ''1'']) ?st =
      (Return JUndefined, ?st\<lparr>cache := filter (\<lambda>p. fst p \<noteq> ''1'') (cache ?st)\<rparr>)"
    by blast
  then have b: "clear (example_config False) (Some [JStr ''1'']) ?st =
     (Return JUndefined,
      \<lparr>cache = [(''2'', \<lparr>entry_value = JNum 1, expiresAt = 100, isError = False\<rparr>)],
       world = Suc (Suc 0), invoked = [[JStr ''1''], [JStr ''2'']], handles = []\<rparr>)"
    by simp
  from k a b show ?thesis by simp
qed

section \<open>Events that spare an entry\<close>

lemma memoized_new_handle:
  assumes "keyGenerator cfg args = Inr k'"
  shows "handles (snd (memoized cfg fn args now now_set st)) = handles st \<or>
         (\<exists>src. handles (snd (memoized cfg fn args now now_set st)) =
            handles st @ [Waiting src k'])"
  using assms
  by (simp add: memoized_def lookup_def purgeIfExpired_def compute_def Let_def
      split: option.splits prod.splits outcome.splits)

lemma preservedD:
  assumes "preserved key e hs s"
  shows "map_of (cache s) key = Some e"
    and "length hs \<le> length (handles s)"
    and "\<And>m. m < length (handles s) \<Longrightarrow> waits_on key (handles s ! m) \<Longrightarrow>
           m < length hs \<and> waits_on key (hs ! m)"
    and "\<And>m. m < length hs \<Longrightarrow> waits_on key (hs ! m) \<Longrightarrow> handles s ! m = hs ! m"
  using assms unfolding preserved_def by blast+

lemma preservedI:
  assumes "map_of (cache s) key = Some e"
    and "length hs \<le> length (handles s)"
    and "\<And>m. m < length (handles s) \<Longrightarrow> waits_on key (handles s ! m) \<Longrightarrow>
           m < length hs \<and> waits_on key (hs ! m)"
    and "\<And>m. m < length hs \<Longrightarrow> waits_on key (hs ! m) \<Longrightarrow> handles s ! m = hs ! m"
  shows "preserved key e hs s"
  using assms unfolding preserved_def by blast

lemma preserved_same_handles:
  assumes p: "preserved key e hs s"
    and c: "map_of (cache s') key = Some e"
    and h: "handles s' = handles s"
  shows "preserved key e hs s'"
  using p c unfolding preserved_def h by blast

lemma preserved_handles_append:
  assumes p: "preserved key e hs s"
    and c: "map_of (cache s') key = Some e"
    and h: "handles s' = handles s \<or> (\<exists>src. handles s' = handles s @ [Waiting src k'])"
    and k: "k' \<noteq> key"
  shows "preserved key e hs s'"
proof -
  note d = preservedD [OF p]
  from h show ?thesis
  proof
    assume "handles s' = handles s"
    with p c show ?thesis by (rule preserved_same_handles)
  next
    assume "\<exists>src. handles s' = handles s @ [Waiting src k']"
    then obtain src where hs': "handles s' = handles s @ [Waiting src k']" by blast
    show ?thesis
    proof (rule preservedI)
      show "map_of (cache s') key = Some e" by (rule c)
      show "length hs \<le> length (handles s')" using d(2) by (simp add: hs')
    next
      fix m assume m: "m < length (handles s')" and wm: "waits_on key (handles s' ! m)"
      show "m < length hs \<and> waits_on key (hs ! m)"
      proof (cases "m < length (handles s)")
        case True
        with wm have "waits_on key (handles s ! m)" by (simp add: hs' nth_append)
        with True show ?thesis by (rule d(3))
      next
        case False
        with m have "m = length (handles s)" by (simp add: hs')
        with wm k show ?thesis by (simp add: hs')
      qed
    next
      fix m assume m: "m < length hs" and wm: "waits_on key (hs ! m)"
      from m d(2) have "m < length (handles s)" by simp
      then have "handles s' ! m = handles s ! m" by (simp add: hs' nth_append)
      with d(4) [OF m wm] show "handles s' ! m = hs ! m" by simp
    qed
  qed
qed

lemma call_spares:
  assumes p: "preserved key e hs s"
    and sp: "keyGenerator cfg args \<noteq> Inr key \<or> t \<le> expiresAt e"
    and m: "memoized cfg fn args t t' s = (r, s')"
  shows "preserved key e hs s'"
    and "filter (\<lambda>a. keyGenerator cfg a = Inr key) (invoked s') =
         filter (\<lambda>a. keyGenerator cfg a = Inr key) (invoked s)"
    and "keyGenerator cfg args = Inr key \<longrightarrow>
           r = (if isError e then Throw (entry_value e) else Return (entry_value e)) \<and> s' = s"
proof -
  from p have e: "map_of (cache s) key = Some e" by (simp add: preserved_def)
  have s': "s' = snd (memoized cfg fn args t t' s)" by (simp add: m)
  have all: "preserved key e hs s' \<and>
    filter (\<lambda>a. keyGenerator cfg a = Inr key) (invoked s') =
         filter (\<lambda>a. keyGenerator cfg a = Inr key) (invoked s) \<and>
    (keyGenerator cfg args = Inr key \<longrightarrow>
           r = (if isError e then Throw (entry_value e) else Return (entry_value e)) \<and> s' = s)"
  proof (cases "keyGenerator cfg args")
    case (Inl err)
    then have "memoized cfg fn args t t' s = (Throw err, s)" by (simp add: memoized_def)
    with m p Inl show ?thesis by simp
  next
    case (Inr k')
    show ?thesis
    proof (cases "k' = key")
      case True
      with Inr have k: "keyGenerator cfg args = Inr key" by simp
      with sp have "t \<le> expiresAt e" by simp
      with memoized_hit [OF k e, of t fn t']
      have "memoized cfg fn args t t' s =
          (if isError e then Throw (entry_value e) else Return (entry_value e), s)"
        by simp
      with m p k show ?thesis by simp
    next
      case False
      from memoized_other_key [OF Inr False, of fn t t' s] e
      have 1: "map_of (cache s') key = Some e" by (simp add: s')
      from memoized_new_handle [OF Inr, of fn t t' s]
      have 2: "handles s' = handles s \<or> (\<exists>src. handles s' = handles s @ [Waiting src k'])"
        by (simp add: s')
      from preserved_handles_append [OF p 1 2 False] have 3: "preserved key e hs s'" .
      from memoized_invoked [of cfg fn args t t' s]
      have "invoked s' = invoked s \<or> invoked s' = invoked s @ [args]" by (simp add: s')
      with Inr False
      have 4: "filter (\<lambda>a. keyGenerator cfg a = Inr key) (invoked s') =
         filter (\<lambda>a. keyGenerator cfg a = Inr key) (invoked s)"
        by auto
      from 3 4 Inr False show ?thesis by simp
    qed
  qed
  from all show "preserved key e hs s'" by simp
  from all show "filter (\<lambda>a. keyGenerator cfg a = Inr key) (invoked s') =
         filter (\<lambda>a. keyGenerator cfg a = Inr key) (invoked s)" by simp
  from all show "keyGenerator cfg args = Inr key \<longrightarrow>
           r = (if isError e then Throw (entry_value e) else Return (entry_value e)) \<and> s' = s"
    by simp
qed

lemma settle_spares:
  assumes p: "preserved key e hs s"
    and sp: "\<not> (n < length hs \<and> waits_on key (hs ! n))"
  shows "preserved key e hs (settle cfg n out now s)"
    and "invoked (settle cfg n out now s) = invoked s"
proof -
  note d = preservedD [OF p]
  show "invoked (settle cfg n out now s) = invoked s"
    by (simp add: settle_def on_fulfilled_def on_rejected_def
        split: pstate.splits outcome.splits)
  show "preserved key e hs (settle cfg n out now s)"
  proof (cases "n < length (handles s)")
    case False
    then have "settle cfg n out now s = s" by (simp add: settle_def)
    with p show ?thesis by simp
  next
    case True
    show ?thesis
    proof (cases "handles s ! n")
      case (Fulfilled v)
      then have "settle cfg n out now s = s" by (simp add: settle_def)
      with p show ?thesis by simp
    next
      case (Rejected v)
      then have "settle cfg n out now s = s" by (simp add: settle_def)
      with p show ?thesis by simp
    next
      case (Waiting src k')
      have k': "k' \<noteq> key"
      proof
        assume "k' = key"
        with Waiting have "waits_on key (handles s ! n)" by simp
        with True have "n < length hs \<and> waits_on key (hs ! n)" by (rule d(3))
        with sp show False by simp
      qed
      have "\<exists>q. \<not> waits_on key q \<and>
              handles (settle cfg n out now s) = (handles s)[n := q] \<and>
              map_of (cache (settle cfg n out now s)) key = map_of (cache s) key"
      proof (cases out)
        case (Return val)
        have "\<not> waits_on key (Fulfilled val) \<and>
              handles (settle cfg n out now s) = (handles s)[n := Fulfilled val] \<and>
              map_of (cache (settle cfg n out now s)) key = map_of (cache s) key"
          using k' by (simp add: Return settle_fulfil [OF True Waiting] update_conv')
        then show ?thesis by blast
      next
        case (Throw err)
        have "\<not> waits_on key (Rejected err) \<and>
              handles (settle cfg n out now s) = (handles s)[n := Rejected err] \<and>
              map_of (cache (settle cfg n out now s)) key = map_of (cache s) key"
          using k' by (simp add: Throw settle_reject [OF True Waiting] update_conv' delete_conv')
        then show ?thesis by blast
      qed
      then obtain q where q: "\<not> waits_on key q"
        and hq: "handles (settle cfg n out now s) = (handles s)[n := q]"
        and cq: "map_of (cache (settle cfg n out now s)) key = map_of (cache s) key"
        by blast
      show ?thesis
      proof (rule preservedI)
        show "map_of (cache (settle cfg n out now s)) key = Some e" by (simp add: cq d(1))
        show "length hs \<le> length (handles (settle cfg n out now s))"
          using d(2) by (simp add: hq)
      next
        fix m assume m: "m < length (handles (settle cfg n out now s))"
          and wm: "waits_on key (handles (settle cfg n out now s) ! m)"
        from m have m': "m < length (handles s)" by (simp add: hq)
        have "m \<noteq> n"
        proof
          assume "m = n"
          with wm m' have "waits_on key q" by (simp add: hq)
          with q show False by simp
        qed
        with wm have "waits_on key (handles s ! m)" by (simp add: hq)
        with m' show "m < length hs \<and> waits_on key (hs ! m)" by (rule d(3))
      next
        fix m assume m: "m < length hs" and wm: "waits_on key (hs ! m)"
        from m wm sp have "m \<noteq> n" by blast
        then have "handles (settle cfg n out now s) ! m = handles s ! m" by (simp add: hq)
        with d(4) [OF m wm] show "handles (settle cfg n out now s) ! m = hs ! m" by simp
      qed
    qed
  qed
qed

lemma clear_spares:
  assumes p: "preserved key e hs s"
    and sp: "keyGenerator cfg a \<noteq> Inr key"
  shows "preserved key e hs (snd (clear cfg (Some a) s))"
    and "invoked (snd (clear cfg (Some a) s)) = invoked s"
proof -
  show "invoked (snd (clear cfg (Some a) s)) = invoked s"
    by (simp add: clear_def split: sum.splits)
  show "preserved key e hs (snd (clear cfg (Some a) s))"
  proof (cases "keyGenerator cfg a")
    case (Inl err)
    with p show ?thesis by (simp add: clear_def)
  next
    case (Inr k')
    with sp have "k' \<noteq> key" by simp
    then have "map_of (cache (snd (clear cfg (Some a) s))) key = Some e"
      using preservedD(1) [OF p] by (simp add: clear_def Inr delete_conv')
    moreover have "handles (snd (clear cfg (Some a) s)) = handles s"
      by (simp add: clear_def Inr)
    ultimately show ?thesis by (rule preserved_same_handles [OF p])
  qed
qed


lemma preserved_init:
  assumes "map_of (cache s) key = Some e"
  shows "preserved key e (handles s) s"
  using assms by (intro preservedI) simp_all

lemma step_spares:
  assumes p: "preserved key e hs s"
    and sp: "spares cfg key (expiresAt e) hs ev"
    and st: "step cfg fn ev s = (r, s')"
  shows "preserved key e hs s'"
    and "filter (\<lambda>a. keyGenerator cfg a = Inr key) (invoked s') =
         filter (\<lambda>a. keyGenerator cfg a = Inr key) (invoked s)"
    and "calls_key cfg key ev \<longrightarrow>
           r = Some (if isError e then Throw (entry_value e) else Return (entry_value e)) \<and>
           s' = s"
proof -
  have all: "preserved key e hs s' \<and>
    filter (\<lambda>a. keyGenerator cfg a = Inr key) (invoked s') =
         filter (\<lambda>a. keyGenerator cfg a = Inr key) (invoked s) \<and>
    (calls_key cfg key ev \<longrightarrow>
           r = Some (if isError e then Throw (entry_value e) else Return (entry_value e)) \<and>
           s' = s)"
  proof (cases ev)
    case (Call args t t')
    obtain r0 where m: "memoized cfg fn args t t' s = (r0, s')" and r: "r = Some r0"
      using st Call by (cases "memoized cfg fn args t t' s") auto
    from sp Call have sp': "keyGenerator cfg args \<noteq> Inr key \<or> t \<le> expiresAt e" by simp
    from call_spares [OF p sp' m] r Call show ?thesis by simp
  next
    case (Settle n out now)
    with st have s': "s' = settle cfg n out now s" by simp
    from sp Settle have sp': "\<not> (n < length hs \<and> waits_on key (hs ! n))" by simp
    from settle_spares [OF p sp', of cfg out now] s' Settle show ?thesis by simp
  next
    case (Clear k)
    show ?thesis
    proof (cases k)
      case None
      with sp Clear show ?thesis by simp
    next
      case (Some a)
      with st Clear have s': "s' = snd (clear cfg (Some a) s)"
        by (simp split: prod.splits)
      from sp Clear Some have sp': "keyGenerator cfg a \<noteq> Inr key" by simp
      from clear_spares [OF p sp'] s' Clear show ?thesis by simp
    qed
  qed
  from all show "preserved key e hs s'" by simp
  from all show "filter (\<lambda>a. keyGenerator cfg a = Inr key) (invoked s') =
         filter (\<lambda>a. keyGenerator cfg a = Inr key) (invoked s)" by simp
  from all show "calls_key cfg key ev \<longrightarrow>
           r = Some (if isError e then Throw (entry_value e) else Return (entry_value e)) \<and>
           s' = s" by simp
qed

lemma run_spares:
  assumes "preserved key e hs s"
    and "\<forall>ev \<in> set es. spares cfg key (expiresAt e) hs ev"
    and "run cfg fn es s = (rs, s')"
  shows "preserved key e hs s' \<and>
         length rs = length es \<and>
         (\<forall>i<length es. calls_key cfg key (es ! i) \<longrightarrow>
            rs ! i = Some (if isError e then Throw (entry_value e) else Return (entry_value e))) \<and>
         filter (\<lambda>a. keyGenerator cfg a = Inr key) (invoked s') =
           filter (\<lambda>a. keyGenerator cfg a = Inr key) (invoked s) \<and>
         ((\<forall>ev \<in> set es. calls_key cfg key ev) \<longrightarrow>
            s' = s \<and>
            rs = replicate (length es)
                   (Some (if isError e then Throw (entry_value e) else Return (entry_value e))))"
  using assms
proof (induction es arbitrary: s rs s')
  case Nil
  then show ?case by simp
next
  case (Cons ev es)
  let ?v = "Some (if isError e then Throw (entry_value e) else Return (entry_value e))"
  obtain r sm where st: "step cfg fn ev s = (r, sm)" by (cases "step cfg fn ev s")
  obtain rs' sf where rc: "run cfg fn es sm = (rs', sf)" by (cases "run cfg fn es sm")
  from Cons.prems(3) st rc have rs: "rs = r # rs'" and sf: "s' = sf" by simp_all
  from Cons.prems(2) have sp: "spares cfg key (expiresAt e) hs ev"
    and rest: "\<forall>ev \<in> set es. spares cfg key (expiresAt e) hs ev" by simp_all
  note ss = step_spares [OF Cons.prems(1) sp st]
  note ih = Cons.IH [OF ss(1) rest rc]
  from ih have pr: "preserved key e hs s'" by (simp add: sf)
  from ih have len: "length rs = length (ev # es)" by (simp add: rs)
  have idx: "\<forall>i<length (ev # es). calls_key cfg key ((ev # es) ! i) \<longrightarrow> rs ! i = ?v"
  proof (intro allI impI)
    fix i assume i: "i < length (ev # es)" and ki: "calls_key cfg key ((ev # es) ! i)"
    show "rs ! i = ?v"
    proof (cases i)
      case 0
      with ki ss(3) show ?thesis by (simp add: rs)
    next
      case (Suc j)
      with i ki ih show ?thesis by (simp add: rs)
    qed
  qed
  from ih ss(2) have inv: "filter (\<lambda>a. keyGenerator cfg a = Inr key) (invoked s') =
           filter (\<lambda>a. keyGenerator cfg a = Inr key) (invoked s)"
    by (simp add: sf)
  have same: "(\<forall>ev' \<in> set (ev # es). calls_key cfg key ev') \<longrightarrow>
            s' = s \<and> rs = replicate (length (ev # es)) ?v"
  proof
    assume all: "\<forall>ev' \<in> set (ev # es). calls_key cfg key ev'"
    then have "calls_key cfg key ev" by simp
    with ss(3) have r: "r = ?v" and sm: "sm = s" by simp_all
    from all ih have "sf = sm \<and> rs' = replicate (length es) ?v" by simp
    with r sm show "s' = s \<and> rs = replicate (length (ev # es)) ?v"
      by (simp add: rs sf)
  qed
  from pr len idx inv same show ?case by blast
qed

section \<open>Deduplication of concurrent calls\<close>

text \<open>
  C1, as stated, fails when the pending computation outlives \<open>ttl\<close>: the pending entry
  is stored with expiry \<open>now + ttl\<close> (line 105) and is purged like any other entry. With
  \<open>ttl = 100\<close>, a call at time 0 installs the promise \<open>Derived 0\<close>; a call with the
  same arguments at time 150, while that promise is still waiting, invokes the
  underlying function a second time and gets another promise, \<open>Derived 1\<close>.
\<close>

theorem dedup_counterexample:
  "memoized (example_config False) fetch_async [JStr ''a''] 0 0 (init 0) =
     (Return (JPromise (Derived 0)), \<lparr>cache = [(''a'', \<lparr>entry_value = JPromise (Derived 0), expiresAt = 100, isError = False\<rparr>)],
       world = Suc 0, invoked = [[JStr ''a'']], handles = [Waiting (Ext 0) ''a'']\<rparr>) \<and>
   memoized (example_config False) fetch_async [JStr ''a''] 150 150 \<lparr>cache = [(''a'', \<lparr>entry_value = JPromise (Derived 0), expiresAt = 100, isError = False\<rparr>)],
       world = Suc 0, invoked = [[JStr ''a'']], handles = [Waiting (Ext 0) ''a'']\<rparr> =
     (Return (JPromise (Derived 1)), \<lparr>cache = [(''a'', \<lparr>entry_value = JPromise (Derived 1), expiresAt = 250, isError = False\<rparr>)],
       world = Suc (Suc 0), invoked = [[JStr ''a''], [JStr ''a'']],
       handles = [Waiting (Ext 0) ''a'', Waiting (Ext 1) ''a'']\<rparr>) \<and>
   handles \<lparr>cache = [(''a'', \<lparr>entry_value = JPromise (Derived 1), expiresAt = 250, isError = False\<rparr>)],
       world = Suc (Suc 0), invoked = [[JStr ''a''], [JStr ''a'']],
       handles = [Waiting (Ext 0) ''a'', Waiting (Ext 1) ''a'']\<rparr> ! 0 = Waiting (Ext 0) ''a'' \<and>
   Return (JPromise (Derived 1)) \<noteq> Return (JPromise (Derived 0)) \<and>
   length (invoked \<lparr>cache = [(''a'', \<lparr>entry_value = JPromise (Derived 1), expiresAt = 250, isError = False\<rparr>)],
       world = Suc (Suc 0), invoked = [[JStr ''a''], [JStr ''a'']],
       handles = [Waiting (Ext 0) ''a'', Waiting (Ext 1) ''a'']\<rparr>) = 2"
  by (simp add: memoized_def lookup_def purgeIfExpired_def compute_def fetch_async_def
      example_config_def string_key_def init_def Let_def)

text \<open>
  Nor is the expiry the only way to lose the pending entry. The continuations of an
  earlier computation act on the fingerprint, not on their own entry: with \<open>ttl = 100\<close>
  and \<^verbatim>\<open>cacheErrors\<close> off, a call at time 0 installs \<open>Derived 0\<close>, a call at 150
  installs \<open>Derived 1\<close> with expiry 250, the source of \<open>Derived 0\<close> is rejected at 160
  and line 99 deletes the entry that holds \<open>Derived 1\<close>, and a call at 170, while
  \<open>Derived 1\<close> is still waiting, invokes the underlying function a third time.
\<close>

lemma stale_settlement_example:
  "run (example_config False) fetch_async
     [Call [JStr ''a''] 0 0, Call [JStr ''a''] 150 150, Settle 0 (Throw (JObj 9)) 160,
      Call [JStr ''a''] 170 170] (init 0) =
     ([Some (Return (JPromise (Derived 0))), Some (Return (JPromise (Derived 1))), None,
       Some (Return (JPromise (Derived 2)))],
      \<lparr>cache = [(''a'', \<lparr>entry_value = JPromise (Derived 2), expiresAt = 270,
                         isError = False\<rparr>)],
       world = Suc (Suc (Suc 0)), invoked = [[JStr ''a''], [JStr ''a''], [JStr ''a'']],
       handles = [Rejected (JObj 9), Waiting (Ext 1) ''a'', Waiting (Ext 2) ''a'']\<rparr>)"
  by (simp add: memoized_def lookup_def purgeIfExpired_def compute_def fetch_async_def
      settle_def on_rejected_def example_config_def string_key_def init_def Let_def)

text \<open>
  C1, amended. Let a call miss the cache and install a pending computation for its
  fingerprint, and let any events follow, each of which spares the pending entry:
  \<^item> every call with that fingerprint has its lookup no later than the pending entry's
    expiry, which is the installing call's store clock plus \<open>ttl\<close>;
  \<^item> no settlement is that of a computation that was pending for that fingerprint at
    the end of the installing call: not the installed one, and not an earlier one
    whose entry had expired or been cleared (its continuations overwrite or delete
    the entry of the fingerprint whatever it then holds);
  \<^item> there is no \<^verbatim>\<open>clear()\<close> and no \<^verbatim>\<open>clear\<close> of that fingerprint.

  Calls with other fingerprints, settlements of other computations and \<^verbatim>\<open>clear\<close> of
  other fingerprints are allowed among the events. Then every call with that
  fingerprint among the events returns the very promise the installing call returned;
  the installing invocation is the only invocation of the underlying function for that
  fingerprint; if all the events are calls with that fingerprint (as N calls with
  identical arguments are), all return that promise and leave the state untouched, so
  that the underlying function has been invoked exactly once; the promise is still
  waiting after the events; and it is fulfilled with the value its source promise is
  fulfilled with, or rejected with the failure its source promise is rejected with, so
  that all the callers, who hold that one promise, observe the same outcome.
\<close>

theorem dedup_while_pending:
  assumes "keyGenerator cfg args = Inr key"
    and "\<not> live now key (cache st)"
    and "fn (world st) args = (Return (JPromise src), w')"
    and "memoized cfg fn args now now_set st = (r1, st1)"
    and "\<forall>ev \<in> set es. spares cfg key (now_set + ttl cfg) (handles st1) ev"
    and "run cfg fn es st1 = (rs, st2)"
  shows "r1 = Return (JPromise (Derived (length (handles st)))) \<and>
         length rs = length es \<and>
         (\<forall>i<length es. calls_key cfg key (es ! i) \<longrightarrow> rs ! i = Some r1) \<and>
         filter (\<lambda>a. keyGenerator cfg a = Inr key) (invoked st2) =
           filter (\<lambda>a. keyGenerator cfg a = Inr key) (invoked st) @ [args] \<and>
         ((\<forall>ev \<in> set es. calls_key cfg key ev) \<longrightarrow>
            rs = replicate (length es) (Some r1) \<and> st2 = st1 \<and>
            invoked st2 = invoked st @ [args]) \<and>
         length (handles st) < length (handles st2) \<and>
         handles st2 ! length (handles st) = Waiting src key \<and>
         handles (settle cfg (length (handles st)) (Return val) s st2) ! length (handles st)
           = Fulfilled val \<and>
         handles (settle cfg (length (handles st)) (Throw err) s st2) ! length (handles st)
           = Rejected err"
proof -
  let ?n = "length (handles st)"
  let ?K = "\<lambda>a. keyGenerator cfg a = Inr key"
  let ?e = "\<lparr>entry_value = JPromise (Derived ?n), expiresAt = now_set + ttl cfg,
             isError = False\<rparr>"
  note fm = first_miss_async [OF assms(1-4)]
  from fm(2) have p: "preserved key ?e (handles st1) st1" by (rule preserved_init)
  from assms(5) have sp: "\<forall>ev \<in> set es. spares cfg key (expiresAt ?e) (handles st1) ev"
    by simp
  note rc = run_spares [OF p sp assms(6)]
  from rc have p2: "preserved key ?e (handles st1) st2" by blast
  from fm(4) have n1: "?n < length (handles st1)"
    and w1: "waits_on key (handles st1 ! ?n)"
    and h1: "handles st1 ! ?n = Waiting src key" by simp_all
  from preservedD(2) [OF p2] n1 have n: "?n < length (handles st2)" by simp
  from preservedD(4) [OF p2 n1 w1] h1 have h: "handles st2 ! ?n = Waiting src key" by simp
  from rc fm(1) have idx: "\<forall>i<length es. calls_key cfg key (es ! i) \<longrightarrow> rs ! i = Some r1"
    by simp
  from rc fm(3) assms(1) have inv: "filter ?K (invoked st2) = filter ?K (invoked st) @ [args]"
    by simp
  from rc fm(1,3) have same: "(\<forall>ev \<in> set es. calls_key cfg key ev) \<longrightarrow>
            rs = replicate (length es) (Some r1) \<and> st2 = st1 \<and>
            invoked st2 = invoked st @ [args]"
    by simp
  from rc have len: "length rs = length es" by simp
  from fm(1) len idx inv same n h settle_handle [OF n h] show ?thesis by blast
qed

theorem dedup_while_pending_witness:
  "keyGenerator (example_config False) [JStr ''a''] = Inr ''a'' \<and>
   \<not> live 0 ''a'' (cache (init (0::nat))) \<and>
   fetch_async 0 [JStr ''a''] = (Return (JPromise (Ext 0)), Suc 0) \<and>
   memoized (example_config False) fetch_async [JStr ''a''] 0 0 (init 0) =
     (Return (JPromise (Derived 0)), \<lparr>cache = [(''a'', \<lparr>entry_value = JPromise (Derived 0), expiresAt = 100, isError = False\<rparr>)],
       world = Suc 0, invoked = [[JStr ''a'']], handles = [Waiting (Ext 0) ''a'']\<rparr>) \<and>
   list_all (spares (example_config False) ''a'' 100 [Waiting (Ext 0) ''a''])
     [Call [JStr ''a''] 10 10, Call [JStr ''b''] 20 20, Settle 1 (Return (JNum 5)) 30,
      Clear (Some [JStr ''b'']), Call [JStr ''a''] 100 100] \<and>
   run (example_config False) fetch_async
     [Call [JStr ''a''] 10 10, Call [JStr ''b''] 20 20, Settle 1 (Return (JNum 5)) 30,
      Clear (Some [JStr ''b'']), Call [JStr ''a''] 100 100] \<lparr>cache = [(''a'', \<lparr>entry_value = JPromise (Derived 0), expiresAt = 100, isError = False\<rparr>)],
       world = Suc 0, invoked = [[JStr ''a'']], handles = [Waiting (Ext 0) ''a'']\<rparr> =
     ([Some (Return (JPromise (Derived 0))), Some (Return (JPromise (Derived 1))), None,
       Some (Return JUndefined), Some (Return (JPromise (Derived 0)))], \<lparr>cache = [(''a'', \<lparr>entry_value = JPromise (Derived 0), expiresAt = 100, isError = False\<rparr>)],
       world = Suc (Suc 0), invoked = [[JStr ''a''], [JStr ''b'']],
       handles = [Waiting (Ext 0) ''a'', Fulfilled (JNum 5)]\<rparr>) \<and>
   filter (\<lambda>a. keyGenerator (example_config False) a = Inr ''a'') (invoked \<lparr>cache = [(''a'', \<lparr>entry_value = JPromise (Derived 0), expiresAt = 100, isError = False\<rparr>)],
       world = Suc (Suc 0), invoked = [[JStr ''a''], [JStr ''b'']],
       handles = [Waiting (Ext 0) ''a'', Fulfilled (JNum 5)]\<rparr>) = [[JStr ''a'']] \<and>
   handles (settle (example_config False) 0 (Return (JNum 7)) 130 \<lparr>cache = [(''a'', \<lparr>entry_value = JPromise (Derived 0), expiresAt = 100, isError = False\<rparr>)],
       world = Suc (Suc 0), invoked = [[JStr ''a''], [JStr ''b'']],
       handles = [Waiting (Ext 0) ''a'', Fulfilled (JNum 5)]\<rparr>) ! 0 = Fulfilled (JNum 7) \<and>
   handles (settle (example_config False) 0 (Throw (JObj 9)) 130 \<lparr>cache = [(''a'', \<lparr>entry_value = JPromise (Derived 0), expiresAt = 100, isError = False\<rparr>)],
       world = Suc (Suc 0), invoked = [[JStr ''a''], [JStr ''b'']],
       handles = [Waiting (Ext 0) ''a'', Fulfilled (JNum 5)]\<rparr>) ! 0 = Rejected (JObj 9)"
proof -
  let ?cfg = "example_config False"
  let ?a = "[JStr ''a'']"
  let ?s1 = "\<lparr>cache = [(''a'', \<lparr>entry_value = JPromise (Derived 0), expiresAt = 100, isError = False\<rparr>)],
       world = Suc 0, invoked = [[JStr ''a'']], handles = [Waiting (Ext 0) ''a'']\<rparr>"
  let ?s3 = "\<lparr>cache = [(''a'', \<lparr>entry_value = JPromise (Derived 0), expiresAt = 100, isError = False\<rparr>)],
       world = Suc (Suc 0), invoked = [[JStr ''a''], [JStr ''b'']],
       handles = [Waiting (Ext 0) ''a'', Fulfilled (JNum 5)]\<rparr>"
  let ?es = "[Call [JStr ''a''] 10 10, Call [JStr ''b''] 20 20, Settle 1 (Return (JNum 5)) 30,
      Clear (Some [JStr ''b'']), Call [JStr ''a''] 100 100]"
  let ?rs = "[Some (Return (JPromise (Derived 0))), Some (Return (JPromise (Derived 1))), None,
       Some (Return JUndefined), Some (Return (JPromise (Derived 0)))]"
  have k: "keyGenerator ?cfg ?a = Inr ''a''" by (simp add: example_config_def string_key_def)
  have l: "\<not> live 0 ''a'' (cache (init (0::nat)))" by (simp add: live_def init_def)
  have f: "fetch_async (world (init 0)) ?a = (Return (JPromise (Ext 0)), Suc 0)"
    by (simp add: fetch_async_def init_def)
  have m: "memoized ?cfg fetch_async ?a 0 0 (init 0) = (Return (JPromise (Derived 0)), ?s1)"
    by (simp add: memoized_def lookup_def compute_def fetch_async_def example_config_def
        string_key_def init_def Let_def)
  have la: "list_all (spares ?cfg ''a'' 100 [Waiting (Ext 0) ''a'']) ?es"
    by (simp add: example_config_def string_key_def)
  have t: "\<forall>ev \<in> set ?es. spares ?cfg ''a'' (0 + ttl ?cfg) (handles ?s1) ev"
    by (simp add: example_config_def string_key_def)
  have r: "run ?cfg fetch_async ?es ?s1 = (?rs, ?s3)"
    by (simp add: memoized_def lookup_def purgeIfExpired_def compute_def fetch_async_def
        settle_def on_fulfilled_def clear_def example_config_def string_key_def Let_def)
  note th = dedup_while_pending [OF k l f m t r, of "JNum 7" 130 "JObj 9"]
  from th have i: "filter (\<lambda>a. keyGenerator ?cfg a = Inr ''a'') (invoked ?s3) =
      filter (\<lambda>a. keyGenerator ?cfg a = Inr ''a'') (invoked (init (0::nat))) @ [?a]"
    by blast
  from th have s: "handles (settle ?cfg 0 (Return (JNum 7)) 130 ?s3) ! 0 = Fulfilled (JNum 7) \<and>
      handles (settle ?cfg 0 (Throw (JObj 9)) 130 ?s3) ! 0 = Rejected (JObj 9)"
    by (simp add: init_def)
  from i have i': "filter (\<lambda>a. keyGenerator ?cfg a = Inr ''a'') (invoked ?s3) = [?a]"
    by (simp add: init_def)
  from k l f m la r i' s show ?thesis by (simp add: init_def)
qed


section \<open>Two calls within the time-to-live\<close>

text \<open>
  C2, as stated, fails when the underlying function throws and \<^verbatim>\<open>cacheErrors\<close> is off
  (the default): nothing is stored, so two calls with the same argument list at the
  same instant invoke the underlying function twice, and the second call throws another
  error object than the first.
\<close>

theorem idempotence_counterexample:
  "memoized (example_config False) failing [JStr ''a''] 0 0 (init 0) =
     (Throw (JObj 0),
      \<lparr>cache = [], world = Suc 0, invoked = [[JStr ''a'']], handles = []\<rparr>) \<and>
   memoized (example_config False) failing [JStr ''a''] 0 0
      \<lparr>cache = [], world = Suc 0, invoked = [[JStr ''a'']], handles = []\<rparr> =
     (Throw (JObj 1),
      \<lparr>cache = [], world = Suc (Suc 0), invoked = [[JStr ''a''], [JStr ''a'']],
       handles = []\<rparr>) \<and>
   (0::int) \<le> 0 + ttl (example_config False) \<and>
   Throw (JObj 1) \<noteq> Throw (JObj 0)"
  by (simp add: memoized_def lookup_def compute_def failing_def example_config_def
      string_key_def init_def)

text \<open>
  C2, amended. Let a call with argument list \<open>args\<close> miss the cache; it invokes the
  underlying function once.
  \<^item> If the underlying function returns (a plain value or a promise): let any events
    follow that spare the entry the call stored, whose expiry is the call's store
    clock plus \<open>ttl\<close> (every call with the fingerprint has its lookup no later than
    that expiry; no computation that was pending for the fingerprint at the end of the
    first call settles; no \<^verbatim>\<open>clear()\<close> and no \<^verbatim>\<open>clear\<close> of the fingerprint; anything
    else may happen). Then a second call with \<open>args\<close>, with its lookup no later than
    that expiry, returns what the first call returned and changes nothing, and of
    all the invocations since the first call began, the first call's is the only one
    for the fingerprint.
  \<^item> If the underlying function throws and \<^verbatim>\<open>cacheErrors\<close> is off: the first call throws
    what the function threw and leaves no entry for the fingerprint, and a second
    call with \<open>args\<close> directly after it, at whatever time, invokes the underlying
    function again, which makes two invocations.
  \<^item> If the underlying function throws and \<^verbatim>\<open>cacheErrors\<close> is on: the first item holds
    with \<open>errorTTL\<close> in the place of \<open>ttl\<close>, and what the second call does is throw
    what the first call threw.

  The first call's store is not earlier than its start, so a second call within
  \<open>ttl\<close> of the first call's start is within \<open>ttl\<close> of its store.
\<close>

theorem idempotent_within_ttl:
  assumes "keyGenerator cfg args = Inr key"
    and "\<not> live now key (cache st)"
    and "fn (world st) args = (out, w')"
    and "memoized cfg fn args now now_set st = (r1, st1)"
  shows "invoked st1 = invoked st @ [args] \<and>
         ((\<exists>v. out = Return v) \<and>
          (\<forall>ev \<in> set es. spares cfg key (now_set + ttl cfg) (handles st1) ev) \<and>
          run cfg fn es st1 = (rs, st2) \<and> now2 \<le> now_set + ttl cfg \<longrightarrow>
            (\<exists>r. r1 = Return r) \<and>
            memoized cfg fn args now2 now_set2 st2 = (r1, st2) \<and>
            filter (\<lambda>a. keyGenerator cfg a = Inr key) (invoked st2) =
              filter (\<lambda>a. keyGenerator cfg a = Inr key) (invoked st) @ [args]) \<and>
         ((\<exists>err. out = Throw err) \<and> \<not> cacheErrors cfg \<longrightarrow>
            r1 = out \<and> map_of (cache st1) key = None \<and>
            invoked (snd (memoized cfg fn args now2 now_set2 st1)) =
              invoked st @ [args, args]) \<and>
         ((\<exists>err. out = Throw err) \<and> cacheErrors cfg \<and>
          (\<forall>ev \<in> set es. spares cfg key (now_set + errorTTL cfg) (handles st1) ev) \<and>
          run cfg fn es st1 = (rs, st2) \<and> now2 \<le> now_set + errorTTL cfg \<longrightarrow>
            r1 = out \<and>
            memoized cfg fn args now2 now_set2 st2 = (r1, st2) \<and>
            filter (\<lambda>a. keyGenerator cfg a = Inr key) (invoked st2) =
              filter (\<lambda>a. keyGenerator cfg a = Inr key) (invoked st) @ [args])"
proof (intro conjI impI)
  let ?K = "\<lambda>a. keyGenerator cfg a = Inr key"
  have "memoized cfg fn args now now_set st =
          compute cfg fn key args now_set (st\<lparr>cache := AList.delete key (cache st)\<rparr>)"
    using assms(1,2) by (rule memoized_miss)
  with assms(4) have "st1 = snd (compute cfg fn key args now_set
      (st\<lparr>cache := AList.delete key (cache st)\<rparr>))" by simp
  then show i1: "invoked st1 = invoked st @ [args]" by (simp add: compute_invoked)
  {
    assume a: "(\<exists>v. out = Return v) \<and>
          (\<forall>ev \<in> set es. spares cfg key (now_set + ttl cfg) (handles st1) ev) \<and>
          run cfg fn es st1 = (rs, st2) \<and> now2 \<le> now_set + ttl cfg"
    then obtain v where f: "fn (world st) args = (Return v, w')"
      using assms(3) by auto
    from a have sp: "\<forall>ev \<in> set es. spares cfg key (now_set + ttl cfg) (handles st1) ev"
      and rn: "run cfg fn es st1 = (rs, st2)" and t: "now2 \<le> now_set + ttl cfg" by simp_all
    from first_miss_returns [OF assms(1,2) f assms(4)] obtain r where
      r: "r1 = Return r"
      and e: "map_of (cache st1) key =
               Some \<lparr>entry_value = r, expiresAt = now_set + ttl cfg, isError = False\<rparr>"
      by blast
    let ?e = "\<lparr>entry_value = r, expiresAt = now_set + ttl cfg, isError = False\<rparr>"
    from e have p: "preserved key ?e (handles st1) st1" by (rule preserved_init)
    from sp have sp': "\<forall>ev \<in> set es. spares cfg key (expiresAt ?e) (handles st1) ev" by simp
    note rc = run_spares [OF p sp' rn]
    from rc have "preserved key ?e (handles st1) st2" by blast
    then have e2: "map_of (cache st2) key = Some ?e" by (rule preservedD(1))
    from r show "\<exists>r. r1 = Return r" by blast
    from memoized_hit [OF assms(1) e2, of now2 fn now_set2] t r
    show "memoized cfg fn args now2 now_set2 st2 = (r1, st2)" by simp
    from rc i1 assms(1) show "filter ?K (invoked st2) = filter ?K (invoked st) @ [args]"
      by simp
  }
  {
    assume a: "(\<exists>err. out = Throw err) \<and> \<not> cacheErrors cfg"
    then obtain err where f: "fn (world st) args = (Throw err, w')" and o: "out = Throw err"
      using assms(3) by auto
    from a have nc: "\<not> cacheErrors cfg" by simp
    note fm = first_miss_throws [OF assms(1,2) f assms(4)]
    from fm(1) o show "r1 = out" by simp
    from fm(5) [OF nc] show n: "map_of (cache st1) key = None" .
    from n have "\<not> live now2 key (cache st1)" by (simp add: live_def)
    from memoized_miss [OF assms(1) this]
    have "invoked (snd (memoized cfg fn args now2 now_set2 st1)) = invoked st1 @ [args]"
      by (simp add: compute_invoked)
    with i1 show "invoked (snd (memoized cfg fn args now2 now_set2 st1)) =
        invoked st @ [args, args]" by simp
  }
  {
    assume a: "(\<exists>err. out = Throw err) \<and> cacheErrors cfg \<and>
          (\<forall>ev \<in> set es. spares cfg key (now_set + errorTTL cfg) (handles st1) ev) \<and>
          run cfg fn es st1 = (rs, st2) \<and> now2 \<le> now_set + errorTTL cfg"
    then obtain err where f: "fn (world st) args = (Throw err, w')" and o: "out = Throw err"
      using assms(3) by auto
    from a have c: "cacheErrors cfg"
      and sp: "\<forall>ev \<in> set es. spares cfg key (now_set + errorTTL cfg) (handles st1) ev"
      and rn: "run cfg fn es st1 = (rs, st2)" and t: "now2 \<le> now_set + errorTTL cfg"
      by simp_all
    note fm = first_miss_throws [OF assms(1,2) f assms(4)]
    let ?e = "\<lparr>entry_value = err, expiresAt = now_set + errorTTL cfg, isError = True\<rparr>"
    from fm(4) [OF c] have p: "preserved key ?e (handles st1) st1" by (rule preserved_init)
    from sp have sp': "\<forall>ev \<in> set es. spares cfg key (expiresAt ?e) (handles st1) ev" by simp
    note rc = run_spares [OF p sp' rn]
    from rc have "preserved key ?e (handles st1) st2" by blast
    then have e2: "map_of (cache st2) key = Some ?e" by (rule preservedD(1))
    from fm(1) o show "r1 = out" by simp
    from memoized_hit [OF assms(1) e2, of now2 fn now_set2] t fm(1)
    show "memoized cfg fn args now2 now_set2 st2 = (r1, st2)" by simp
    from rc i1 assms(1) show "filter ?K (invoked st2) = filter ?K (invoked st) @ [args]"
      by simp
  }
qed

theorem idempotent_within_ttl_witness:
  "keyGenerator (example_config False) [JStr ''a''] = Inr ''a'' \<and>
   \<not> live 0 ''a'' (cache (init (0::nat))) \<and>
   counter 0 [JStr ''a''] = (Return (JNum 0), Suc 0) \<and>
   memoized (example_config False) counter [JStr ''a''] 0 0 (init 0) = (Return (JNum 0), \<lparr>cache = [(''a'', \<lparr>entry_value = JNum 0, expiresAt = 100, isError = False\<rparr>)],
       world = Suc 0, invoked = [[JStr ''a'']], handles = []\<rparr>) \<and>
   list_all (spares (example_config False) ''a'' 100 []) [Call [JStr ''b''] 5 5] \<and>
   run (example_config False) counter [Call [JStr ''b''] 5 5] \<lparr>cache = [(''a'', \<lparr>entry_value = JNum 0, expiresAt = 100, isError = False\<rparr>)],
       world = Suc 0, invoked = [[JStr ''a'']], handles = []\<rparr> =
     ([Some (Return (JNum 1))], \<lparr>cache = [(''a'', \<lparr>entry_value = JNum 0, expiresAt = 100, isError = False\<rparr>),
                (''b'', \<lparr>entry_value = JNum 1, expiresAt = 105, isError = False\<rparr>)],
       world = Suc (Suc 0), invoked = [[JStr ''a''], [JStr ''b'']], handles = []\<rparr>) \<and>
   memoized (example_config False) counter [JStr ''a''] 100 100 \<lparr>cache = [(''a'', \<lparr>entry_value = JNum 0, expiresAt = 100, isError = False\<rparr>),
                (''b'', \<lparr>entry_value = JNum 1, expiresAt = 105, isError = False\<rparr>)],
       world = Suc (Suc 0), invoked = [[JStr ''a''], [JStr ''b'']], handles = []\<rparr> = (Return (JNum 0), \<lparr>cache = [(''a'', \<lparr>entry_value = JNum 0, expiresAt = 100, isError = False\<rparr>),
                (''b'', \<lparr>entry_value = JNum 1, expiresAt = 105, isError = False\<rparr>)],
       world = Suc (Suc 0), invoked = [[JStr ''a''], [JStr ''b'']], handles = []\<rparr>) \<and>
   failing 0 [JStr ''a''] = (Throw (JObj 0), Suc 0) \<and>
   \<not> cacheErrors (example_config False) \<and>
   memoized (example_config False) failing [JStr ''a''] 0 0 (init 0) = (Throw (JObj 0), \<lparr>cache = [], world = Suc 0, invoked = [[JStr ''a'']], handles = []\<rparr>) \<and>
   invoked (snd (memoized (example_config False) failing [JStr ''a''] 0 0 \<lparr>cache = [], world = Suc 0, invoked = [[JStr ''a'']], handles = []\<rparr>)) =
     [[JStr ''a''], [JStr ''a'']] \<and>
   cacheErrors (example_config True) \<and>
   memoized (example_config True) failing [JStr ''a''] 0 0 (init 0) = (Throw (JObj 0), \<lparr>cache = [(''a'', \<lparr>entry_value = JObj 0, expiresAt = 50, isError = True\<rparr>)],
       world = Suc 0, invoked = [[JStr ''a'']], handles = []\<rparr>) \<and>
   list_all (spares (example_config True) ''a'' 50 []) [Call [JStr ''b''] 5 5] \<and>
   run (example_config True) failing [Call [JStr ''b''] 5 5] \<lparr>cache = [(''a'', \<lparr>entry_value = JObj 0, expiresAt = 50, isError = True\<rparr>)],
       world = Suc 0, invoked = [[JStr ''a'']], handles = []\<rparr> =
     ([Some (Throw (JObj 1))], \<lparr>cache = [(''a'', \<lparr>entry_value = JObj 0, expiresAt = 50, isError = True\<rparr>),
                (''b'', \<lparr>entry_value = JObj 1, expiresAt = 55, isError = True\<rparr>)],
       world = Suc (Suc 0), invoked = [[JStr ''a''], [JStr ''b'']], handles = []\<rparr>) \<and>
   memoized (example_config True) failing [JStr ''a''] 50 50 \<lparr>cache = [(''a'', \<lparr>entry_value = JObj 0, expiresAt = 50, isError = True\<rparr>),
                (''b'', \<lparr>entry_value = JObj 1, expiresAt = 55, isError = True\<rparr>)],
       world = Suc (Suc 0), invoked = [[JStr ''a''], [JStr ''b'']], handles = []\<rparr> = (Throw (JObj 0), \<lparr>cache = [(''a'', \<lparr>entry_value = JObj 0, expiresAt = 50, isError = True\<rparr>),
                (''b'', \<lparr>entry_value = JObj 1, expiresAt = 55, isError = True\<rparr>)],
       world = Suc (Suc 0), invoked = [[JStr ''a''], [JStr ''b'']], handles = []\<rparr>)"
proof -
  let ?cfg = "example_config False"
  let ?cfgT = "example_config True"
  let ?a = "[JStr ''a'']"
  let ?v1 = "\<lparr>cache = [(''a'', \<lparr>entry_value = JNum 0, expiresAt = 100, isError = False\<rparr>)],
       world = Suc 0, invoked = [[JStr ''a'']], handles = []\<rparr>"
  let ?v2 = "\<lparr>cache = [(''a'', \<lparr>entry_value = JNum 0, expiresAt = 100, isError = False\<rparr>),
                (''b'', \<lparr>entry_value = JNum 1, expiresAt = 105, isError = False\<rparr>)],
       world = Suc (Suc 0), invoked = [[JStr ''a''], [JStr ''b'']], handles = []\<rparr>"
  let ?n1 = "\<lparr>cache = [], world = Suc 0, invoked = [[JStr ''a'']], handles = []\<rparr> :: nat state"
  let ?e1 = "\<lparr>cache = [(''a'', \<lparr>entry_value = JObj 0, expiresAt = 50, isError = True\<rparr>)],
       world = Suc 0, invoked = [[JStr ''a'']], handles = []\<rparr>"
  let ?e2 = "\<lparr>cache = [(''a'', \<lparr>entry_value = JObj 0, expiresAt = 50, isError = True\<rparr>),
                (''b'', \<lparr>entry_value = JObj 1, expiresAt = 55, isError = True\<rparr>)],
       world = Suc (Suc 0), invoked = [[JStr ''a''], [JStr ''b'']], handles = []\<rparr>"
  let ?es = "[Call [JStr ''b''] 5 5]"
  have k: "keyGenerator ?cfg ?a = Inr ''a''" by (simp add: example_config_def string_key_def)
  have kT: "keyGenerator ?cfgT ?a = Inr ''a''" by (simp add: example_config_def string_key_def)
  have l: "\<not> live 0 ''a'' (cache (init (0::nat)))" by (simp add: live_def init_def)
  have f1: "counter (world (init 0)) ?a = (Return (JNum 0), Suc 0)"
    by (simp add: counter_def init_def)
  have m1: "memoized ?cfg counter ?a 0 0 (init 0) = (Return (JNum 0), ?v1)"
    by (simp add: memoized_def lookup_def compute_def counter_def example_config_def
        string_key_def init_def)
  have la: "list_all (spares ?cfg ''a'' 100 []) ?es"
    by (simp add: example_config_def string_key_def)
  have sp: "\<forall>ev \<in> set ?es. spares ?cfg ''a'' (0 + ttl ?cfg) (handles ?v1) ev"
    by (simp add: example_config_def string_key_def)
  have r1: "run ?cfg counter ?es ?v1 = ([Some (Return (JNum 1))], ?v2)"
    by (simp add: memoized_def lookup_def compute_def counter_def example_config_def
        string_key_def)
  have t1: "(100::int) \<le> 0 + ttl ?cfg" by (simp add: example_config_def)
  from idempotent_within_ttl [OF k l f1 m1, of ?es "[Some (Return (JNum 1))]" ?v2 100 100]
    sp r1 t1
  have a1: "memoized ?cfg counter ?a 100 100 ?v2 = (Return (JNum 0), ?v2)" by blast
  have f2: "failing (world (init 0)) ?a = (Throw (JObj 0), Suc 0)"
    by (simp add: failing_def init_def)
  have nc: "\<not> cacheErrors ?cfg" by (simp add: example_config_def)
  have m2: "memoized ?cfg failing ?a 0 0 (init 0) = (Throw (JObj 0), ?n1)"
    by (simp add: memoized_def lookup_def compute_def failing_def example_config_def
        string_key_def init_def)
  from idempotent_within_ttl [OF k l f2 m2, of _ _ _ 0 0] nc
  have "invoked (snd (memoized ?cfg failing ?a 0 0 ?n1)) = invoked (init (0::nat)) @ [?a, ?a]"
    by blast
  then have a2: "invoked (snd (memoized ?cfg failing ?a 0 0 ?n1)) = [?a, ?a]"
    by (simp add: init_def)
  have c: "cacheErrors ?cfgT" by (simp add: example_config_def)
  have m3: "memoized ?cfgT failing ?a 0 0 (init 0) = (Throw (JObj 0), ?e1)"
    by (simp add: memoized_def lookup_def compute_def failing_def example_config_def
        string_key_def init_def)
  have la3: "list_all (spares ?cfgT ''a'' 50 []) ?es"
    by (simp add: example_config_def string_key_def)
  have r3: "run ?cfgT failing ?es ?e1 = ([Some (Throw (JObj 1))], ?e2)"
    by (simp add: memoized_def lookup_def compute_def failing_def example_config_def
        string_key_def)
  have sp3: "\<forall>ev \<in> set ?es. spares ?cfgT ''a'' (0 + errorTTL ?cfgT) (handles ?e1) ev"
    by (simp add: example_config_def string_key_def)
  have t3: "(50::int) \<le> 0 + errorTTL ?cfgT" by (simp add: example_config_def)
  from idempotent_within_ttl [OF kT l f2 m3, of ?es "[Some (Throw (JObj 1))]" ?e2 50 50]
    c sp3 r3 t3
  have a3: "memoized ?cfgT failing ?a 50 50 ?e2 = (Throw (JObj 0), ?e2)" by blast
  from k l f1 m1 la r1 a1 f2 nc m2 a2 c m3 la3 r3 a3 show ?thesis by (simp add: init_def)
qed

end
